theory Spec2Isabelle
  imports Complex_Main
begin

section \<open>Binary64 numbers\<close>

text \<open>
  The scoring engine is the React component that declares \<open>LM\<close>, \<open>dist\<close>,
  \<open>meanPoint\<close>, \<open>getPts\<close>, \<open>clamp\<close>, \<open>scoreFromError\<close>, \<open>computeMetrics\<close> and
  \<open>weightedScore\<close>. All of its arithmetic is on JavaScript numbers, which are IEEE 754
  binary64 numbers. A number is a finite binary64 value (\<open>Num r\<close>, with \<open>r\<close> the real it
  denotes), an infinity or \<open>NaN\<close>. Every arithmetic operation computes the exact real
  result and rounds it to the nearest binary64 number, ties to even, with gradual
  underflow, and with overflow to an infinity: \<open>round64\<close> below. No arithmetic
  operation throws.
  
  The sign of a zero is not part of the model: a zero is the positive zero. The engine
  never divides by a zero (each divisor is a non-zero constant, a positive count, or is
  guarded by \<open>||\<close>, which replaces both zeros), and \<open>Math.hypot\<close>, \<open>Math.exp\<close>, \<open>Math.max\<close>
  and \<open>Math.min\<close> give the same numbers for both zeros, up to the sign of a zero result.
\<close>

datatype jsnum = Num real | PosInf | NegInf | NaN

text \<open>Negation is exact.\<close>

instantiation jsnum :: uminus
begin

fun uminus_jsnum :: "jsnum \<Rightarrow> jsnum" where
  "uminus_jsnum (Num a) = Num (- a)"
| "uminus_jsnum PosInf = NegInf"
| "uminus_jsnum NegInf = PosInf"
| "uminus_jsnum NaN = NaN"

instance ..

end

text \<open>Rounding a real to the nearest integer, ties to the even one.\<close>

definition round_half_even :: "real \<Rightarrow> int" where
  "round_half_even y =
     (let f = \<lfloor>y\<rfloor> in
      if y - of_int f < 1 / 2 then f
      else if 1 / 2 < y - of_int f then f + 1
      else if even f then f else f + 1)"

text \<open>
  The exponent of the binade of a positive real: \<open>\<lfloor>log\<^sub>2 x\<rfloor>\<close>, and \<open>-1022\<close> throughout the
  subnormal range. The binary64 numbers of that binade are the multiples of
  \<open>2 ^ (binade x - 52)\<close>.
\<close>

definition binade :: "real \<Rightarrow> int" where
  "binade x = max \<lfloor>log 2 x\<rfloor> (- 1022)"

text \<open>
  Rounding a positive real: to the nearest multiple of the spacing of its binade, ties to
  the even multiple; a result of \<open>2 ^ 1024\<close> or more is an infinity.
\<close>

definition round_mag :: "real \<Rightarrow> jsnum" where
  "round_mag x =
     (let q = 2 powi (binade x - 52);
          r = of_int (round_half_even (x / q)) * q
      in if 2 ^ 1024 \<le> r then PosInf else Num r)"

text \<open>Rounding a real to binary64: symmetric in the sign.\<close>

definition round64 :: "real \<Rightarrow> jsnum" where
  "round64 x = (if x = 0 then Num 0 else if 0 < x then round_mag x else - round_mag (- x))"

text \<open>
  The order \<open>a <= b\<close> of JavaScript on numbers: false as soon as an operand is \<open>NaN\<close>.
\<close>

fun js_le :: "jsnum \<Rightarrow> jsnum \<Rightarrow> bool" where
  "js_le NaN _ = False"
| "js_le _ NaN = False"
| "js_le NegInf _ = True"
| "js_le _ PosInf = True"
| "js_le PosInf _ = False"
| "js_le _ NegInf = False"
| "js_le (Num a) (Num b) = (a \<le> b)"

text \<open>
  The spacing of the binade of \<open>x\<close>, and \<open>x\<close> rounded to a multiple of it.
\<close>

definition quantum :: "real \<Rightarrow> real" where
  "quantum x = 2 powi (binade x - 52)"

definition mag_val :: "real \<Rightarrow> real" where
  "mag_val x = of_int (round_half_even (x / quantum x)) * quantum x"

text \<open>A real that is a binary64 number: rounding leaves it as it is.\<close>

definition is_double :: "real \<Rightarrow> bool" where
  "is_double r = (round64 r = Num r)"

section \<open>Arithmetic\<close>

text \<open>The sign of a number, as a real: used by multiplication with an infinity.\<close>

fun js_sign :: "jsnum \<Rightarrow> real" where
  "js_sign (Num a) = sgn a"
| "js_sign PosInf = 1"
| "js_sign NegInf = - 1"
| "js_sign NaN = 0"

text \<open>
  The operators \<open>a + b\<close>, \<open>a - b\<close>, \<open>a * b\<close> and \<open>a / b\<close> and \<open>Math.abs\<close>, written with the usual
  symbols: the exact result, rounded. (\<open>inverse\<close> only completes the type class of \<open>/\<close>.)
\<close>

instantiation jsnum :: "{plus, minus, times, inverse, abs}"
begin

fun plus_jsnum :: "jsnum \<Rightarrow> jsnum \<Rightarrow> jsnum" where
  "plus_jsnum (Num a) (Num b) = round64 (a + b)"
| "plus_jsnum NaN _ = NaN"
| "plus_jsnum _ NaN = NaN"
| "plus_jsnum PosInf NegInf = NaN"
| "plus_jsnum NegInf PosInf = NaN"
| "plus_jsnum PosInf _ = PosInf"
| "plus_jsnum _ PosInf = PosInf"
| "plus_jsnum NegInf _ = NegInf"
| "plus_jsnum _ NegInf = NegInf"

definition minus_jsnum :: "jsnum \<Rightarrow> jsnum \<Rightarrow> jsnum" where
  "minus_jsnum a b = a + (- b)"

fun times_jsnum :: "jsnum \<Rightarrow> jsnum \<Rightarrow> jsnum" where
  "times_jsnum (Num a) (Num b) = round64 (a * b)"
| "times_jsnum NaN _ = NaN"
| "times_jsnum _ NaN = NaN"
| "times_jsnum a b =
     (if js_sign a * js_sign b = 0 then NaN
      else if 0 < js_sign a * js_sign b then PosInf else NegInf)"

fun divide_jsnum :: "jsnum \<Rightarrow> jsnum \<Rightarrow> jsnum" where
  "divide_jsnum (Num a) (Num b) =
     (if b = 0 then (if a = 0 then NaN else if 0 < a then PosInf else NegInf)
      else round64 (a / b))"
| "divide_jsnum NaN _ = NaN"
| "divide_jsnum _ NaN = NaN"
| "divide_jsnum (Num a) _ = Num 0"
| "divide_jsnum PosInf (Num b) = (if 0 \<le> b then PosInf else NegInf)"
| "divide_jsnum NegInf (Num b) = (if 0 \<le> b then NegInf else PosInf)"
| "divide_jsnum _ _ = NaN"

definition inverse_jsnum :: "jsnum \<Rightarrow> jsnum" where
  "inverse_jsnum a = (Num 1 div a)"

fun abs_jsnum :: "jsnum \<Rightarrow> jsnum" where
  "abs_jsnum (Num a) = Num \<bar>a\<bar>"
| "abs_jsnum PosInf = PosInf"
| "abs_jsnum NegInf = PosInf"
| "abs_jsnum NaN = NaN"

instance ..

end

text \<open>A decimal literal of the source denotes the binary64 number nearest to it.\<close>

definition lit :: "real \<Rightarrow> jsnum" where
  "lit r = round64 r"

text \<open>
  \<open>Math.hypot\<close> and \<open>Math.exp\<close> are implementation-approximated in ECMAScript: the
  standard fixes their value on infinities, \<open>NaN\<close> and zeros only. Their value on other
  finite arguments is a parameter of the model, the record \<open>math\<close>; the functions
  \<open>Math_hypot\<close> and \<open>Math_exp\<close> add the cases the standard fixes. In \<open>Math_hypot\<close> an
  infinite argument wins over \<open>NaN\<close>.
\<close>

record math =
  hypot_impl :: "real \<Rightarrow> real \<Rightarrow> jsnum"
  exp_impl :: "real \<Rightarrow> jsnum"

fun Math_hypot :: "math \<Rightarrow> jsnum \<Rightarrow> jsnum \<Rightarrow> jsnum" where
  "Math_hypot M PosInf _ = PosInf"
| "Math_hypot M NegInf _ = PosInf"
| "Math_hypot M _ PosInf = PosInf"
| "Math_hypot M _ NegInf = PosInf"
| "Math_hypot M NaN _ = NaN"
| "Math_hypot M _ NaN = NaN"
| "Math_hypot M (Num a) (Num b) = (if a = 0 \<and> b = 0 then Num 0 else hypot_impl M a b)"

fun Math_exp :: "math \<Rightarrow> jsnum \<Rightarrow> jsnum" where
  "Math_exp M NaN = NaN"
| "Math_exp M PosInf = PosInf"
| "Math_exp M NegInf = Num 0"
| "Math_exp M (Num a) = (if a = 0 then Num 1 else exp_impl M a)"

text \<open>
  \<open>Math.max\<close> and \<open>Math.min\<close> of two arguments: \<open>NaN\<close> if either is \<open>NaN\<close>.
\<close>

fun Math_max :: "jsnum \<Rightarrow> jsnum \<Rightarrow> jsnum" where
  "Math_max NaN _ = NaN"
| "Math_max _ NaN = NaN"
| "Math_max PosInf _ = PosInf"
| "Math_max _ PosInf = PosInf"
| "Math_max NegInf b = b"
| "Math_max a NegInf = a"
| "Math_max (Num a) (Num b) = Num (max a b)"

fun Math_min :: "jsnum \<Rightarrow> jsnum \<Rightarrow> jsnum" where
  "Math_min NaN _ = NaN"
| "Math_min _ NaN = NaN"
| "Math_min NegInf _ = NegInf"
| "Math_min _ NegInf = NegInf"
| "Math_min PosInf b = b"
| "Math_min a PosInf = a"
| "Math_min (Num a) (Num b) = Num (min a b)"

text \<open>
  The operator \<open>a || b\<close> on numbers: \<open>b\<close> when \<open>a\<close> is falsy, which for a number
  means zero or \<open>NaN\<close>.
\<close>

fun js_or :: "jsnum \<Rightarrow> jsnum \<Rightarrow> jsnum" where
  "js_or (Num a) b = (if a = 0 then b else Num a)"
| "js_or NaN b = b"
| "js_or a b = a"

text \<open>
  The implementation that rounds the exact value of each function once. The theorems
  below hold for every implementation (under the stated bounds on it, where one is
  needed); the examples that need the value of a function are evaluated with this one.
\<close>

definition correctly_rounded :: math where
  "correctly_rounded =
     \<lparr>hypot_impl = (\<lambda>a b. round64 (sqrt (a * a + b * b))), exp_impl = (\<lambda>a. round64 (exp a))\<rparr>"

section \<open>Landmarks and the landmark indices\<close>

text \<open>
  A landmark is an object with the fields \<open>x\<close> and \<open>y\<close> (here \<open>px\<close> and \<open>py\<close>), as
  built by \<open>scaledMesh.map(([x, y]) => ({ x, y }))\<close> from the detector's finite
  coordinates. The landmark set is the array of them. A point is the two-element
  array \<open>[x, y]\<close> the utility functions work on.
\<close>

record landmark =
  px :: real
  py :: real

type_synonym point = "jsnum \<times> jsnum"

text \<open>The table \<open>LM\<close>.\<close>

definition LM_leftEye :: "nat list" where "LM_leftEye = [33, 133, 159, 145, 153, 144]"

definition LM_rightEye :: "nat list" where "LM_rightEye = [362, 263, 386, 374, 380, 373]"

definition LM_leftInner :: nat where "LM_leftInner = 133"

definition LM_rightInner :: nat where "LM_rightInner = 362"

definition LM_leftOuter :: nat where "LM_leftOuter = 33"

definition LM_rightOuter :: nat where "LM_rightOuter = 263"

definition LM_noseBridgeTop :: nat where "LM_noseBridgeTop = 168"

definition LM_noseTip :: nat where "LM_noseTip = 1"

definition LM_noseLeft :: nat where "LM_noseLeft = 97"

definition LM_noseRight :: nat where "LM_noseRight = 326"

definition LM_chin :: nat where "LM_chin = 152"

definition LM_faceLeft :: nat where "LM_faceLeft = 234"

definition LM_faceRight :: nat where "LM_faceRight = 454"

definition LM_browLeftMid :: nat where "LM_browLeftMid = 55"

definition LM_browRightMid :: nat where "LM_browRightMid = 285"

text \<open>
  Reading past the end of the array gives \<open>undefined\<close>, and reading \<open>.x\<close> of
  \<open>undefined\<close> throws a \<open>TypeError\<close>: the only exception the engine can raise.
\<close>

datatype js_error = TypeError

definition and_then :: "js_error + 'a \<Rightarrow> ('a \<Rightarrow> js_error + 'b) \<Rightarrow> js_error + 'b" where
  "and_then r f = (case r of Inl e \<Rightarrow> Inl e | Inr v \<Rightarrow> f v)"

text \<open>\<open>[landmarks[i].x, landmarks[j].y]\<close>\<close>

definition xy :: "landmark list \<Rightarrow> nat \<Rightarrow> nat \<Rightarrow> js_error + point" where
  "xy landmarks i j =
     (if i < length landmarks \<and> j < length landmarks
      then Inr (Num (px (landmarks ! i)), Num (py (landmarks ! j)))
      else Inl TypeError)"

text \<open>\<open>Array.prototype.map\<close> with a callback that can throw.\<close>

fun map_throwing :: "('a \<Rightarrow> js_error + 'b) \<Rightarrow> 'a list \<Rightarrow> js_error + 'b list" where
  "map_throwing f [] = Inr []"
| "map_throwing f (a # as) =
     and_then (f a) (\<lambda>b. and_then (map_throwing f as) (\<lambda>bs. Inr (b # bs)))"

section \<open>Utility functions\<close>

definition dist :: "math \<Rightarrow> point \<Rightarrow> point \<Rightarrow> jsnum" where
  "dist M a b = Math_hypot M (fst a - fst b) (snd a - snd b)"

definition meanPoint :: "point list \<Rightarrow> point" where
  "meanPoint points =
     (let n = Num (real (length points));
          s = foldl (\<lambda>acc p. (fst acc + fst p, snd acc + snd p)) (Num 0, Num 0) points
      in (fst s / n, snd s / n))"

definition getPts :: "landmark list \<Rightarrow> nat list \<Rightarrow> js_error + point list" where
  "getPts landmarks idxs = map_throwing (\<lambda>i. xy landmarks i i) idxs"

definition clamp :: "jsnum \<Rightarrow> jsnum \<Rightarrow> jsnum \<Rightarrow> jsnum" where
  "clamp v a b = Math_max a (Math_min b v)"

text \<open>
  \<open>scoreFromError(err, tolerance = 0.1)\<close>: every call of the source passes the
  tolerance, so the default value plays no part.
\<close>

definition scoreFromError :: "math \<Rightarrow> jsnum \<Rightarrow> jsnum \<Rightarrow> jsnum" where
  "scoreFromError M err tolerance =
     clamp (Num 100 * Math_exp M (- (err * err) / (Num 2 * tolerance * tolerance)))
       (Num 0) (Num 100)"

section \<open>The four metrics\<close>

record raw_metrics =
  lw :: jsnum
  fifths :: jsnum
  eyeGapRatio :: jsnum
  symmetryNorm :: jsnum

record metrics =
  symmetryScore :: jsnum
  goldenScore :: jsnum
  fifthsScore :: jsnum
  eyeGapScore :: jsnum
  raw :: raw_metrics

text \<open>
  The callback of \<open>pairs.map\<close>: the distance of a left point to the mirrored right one.
\<close>

definition symErr :: "math \<Rightarrow> landmark list \<Rightarrow> jsnum \<Rightarrow> nat \<times> nat \<Rightarrow> js_error + jsnum" where
  "symErr M landmarks midlineX lr =
     and_then (xy landmarks (fst lr) (fst lr)) (\<lambda>L.
     and_then (xy landmarks (snd lr) (snd lr)) (\<lambda>R.
     let Rm = (Num 2 * midlineX - fst R, snd R)
     in Inr (dist M L Rm)))"

text \<open>
  \<open>computeMetrics\<close>, statement by statement. The unused \<open>pts\<close> of its first line
  cannot throw on an array of landmark objects and is left out.
\<close>

definition computeMetrics :: "math \<Rightarrow> landmark list \<Rightarrow> js_error + metrics" where
  "computeMetrics M landmarks =
     and_then (getPts landmarks LM_leftEye) (\<lambda>leftEyePts.
     and_then (getPts landmarks LM_rightEye) (\<lambda>rightEyePts.
     let leftEyeCenter = meanPoint leftEyePts;
         rightEyeCenter = meanPoint rightEyePts;
         eyeCenterMid = ((fst leftEyeCenter + fst rightEyeCenter) / Num 2,
                         (snd leftEyeCenter + snd rightEyeCenter) / Num 2)
     in
     and_then (xy landmarks LM_faceLeft LM_faceLeft) (\<lambda>faceLeft.
     and_then (xy landmarks LM_faceRight LM_faceRight) (\<lambda>faceRight.
     let faceWidth = dist M faceLeft faceRight in
     and_then (xy landmarks LM_chin LM_chin) (\<lambda>chin.
     and_then (xy landmarks LM_noseBridgeTop LM_noseBridgeTop) (\<lambda>noseBridgeTop.
     let faceLength = dist M noseBridgeTop chin * lit 1.4;
         midlineX = fst eyeCenterMid;
         pairs = [(LM_leftOuter, LM_rightOuter), (LM_leftInner, LM_rightInner),
                  (LM_browLeftMid, LM_browRightMid), (LM_noseLeft, LM_noseRight)]
     in
     and_then (map_throwing (symErr M landmarks midlineX) pairs) (\<lambda>symErrs.
     let symmetryErr = foldl (+) (Num 0) symErrs / Num (real (length symErrs));
         symmetryNorm = symmetryErr / js_or faceWidth (lit (1 / 10 ^ 6));
         symmetryScore = scoreFromError M symmetryNorm (lit 0.04);
         lw = faceLength / js_or faceWidth (lit (1 / 10 ^ 6));
         goldenTarget = lit 1.618;
         goldenErr = \<bar>lw - goldenTarget\<bar> / goldenTarget;
         goldenScore = scoreFromError M goldenErr (lit 0.15)
     in
     and_then (xy landmarks LM_leftOuter LM_leftInner) (\<lambda>leftA.
     and_then (xy landmarks LM_leftInner LM_leftInner) (\<lambda>leftB.
     let leftEyeW = dist M leftA leftB in
     and_then (xy landmarks LM_rightInner LM_rightOuter) (\<lambda>rightA.
     and_then (xy landmarks LM_rightOuter LM_rightOuter) (\<lambda>rightB.
     let rightEyeW = dist M rightA rightB;
         eyeW = (leftEyeW + rightEyeW) / Num 2;
         fifths = js_or faceWidth (lit (1 / 10 ^ 6)) / js_or eyeW (lit (1 / 10 ^ 6));
         fifthsErr = \<bar>fifths - Num 5\<bar> / Num 5;
         fifthsScore = scoreFromError M fifthsErr (lit 0.18)
     in
     and_then (xy landmarks LM_leftInner LM_leftInner) (\<lambda>innerL.
     and_then (xy landmarks LM_rightInner LM_rightInner) (\<lambda>innerR.
     let innerGap = dist M innerL innerR;
         eyeGapRatio = innerGap / js_or eyeW (lit (1 / 10 ^ 6));
         eyeGapErr = \<bar>eyeGapRatio - Num 1\<bar>;
         eyeGapScore = scoreFromError M eyeGapErr (lit 0.25)
     in Inr \<lparr>symmetryScore = symmetryScore, goldenScore = goldenScore,
              fifthsScore = fifthsScore, eyeGapScore = eyeGapScore,
              raw = \<lparr>lw = lw, fifths = fifths, eyeGapRatio = eyeGapRatio,
                     symmetryNorm = symmetryNorm\<rparr>\<rparr>)))))))))))))"

section \<open>The weighted score\<close>

text \<open>
  The weights are an object: its own properties in insertion order, with numbers as
  values. \<open>Object.values\<close> lists the values; reading a property the object does not
  have gives \<open>undefined\<close>, and a product with \<open>undefined\<close> is \<open>NaN\<close>.
\<close>

type_synonym weights = "(string \<times> real) list"

definition Object_values :: "weights \<Rightarrow> jsnum list" where
  "Object_values weights = map (\<lambda>kv. Num (snd kv)) weights"

definition property :: "weights \<Rightarrow> string \<Rightarrow> jsnum" where
  "property weights k = (case map_of weights k of Some v \<Rightarrow> Num v | None \<Rightarrow> NaN)"

definition weightedScore :: "metrics \<Rightarrow> weights \<Rightarrow> jsnum" where
  "weightedScore m weights =
     (let wSum = js_or (foldl (+) (Num 0) (Object_values weights)) (Num 1)
      in (symmetryScore m * property weights ''symmetry'' + goldenScore m * property weights ''golden''
          + fifthsScore m * property weights ''fifths'' + eyeGapScore m * property weights ''eyeGap'')
         / wSum)"

section \<open>The quantities the statements are about\<close>

text \<open>A number is a finite number within the bounds.\<close>

definition in_range :: "jsnum \<Rightarrow> real \<Rightarrow> real \<Rightarrow> bool" where
  "in_range v lo hi = (case v of Num r \<Rightarrow> lo \<le> r \<and> r \<le> hi | _ \<Rightarrow> False)"

text \<open>A finite number of magnitude at most \<open>2^k\<close>.\<close>

definition fin :: "int \<Rightarrow> jsnum \<Rightarrow> bool" where
  "fin k v = (case v of Num r \<Rightarrow> \<bar>r\<bar> \<le> 2 powi k | _ \<Rightarrow> False)"

text \<open>A non-negative finite number of at most \<open>2^k\<close>.\<close>

definition nn :: "int \<Rightarrow> jsnum \<Rightarrow> bool" where
  "nn k v = (case v of Num r \<Rightarrow> 0 \<le> r \<and> r \<le> 2 powi k | _ \<Rightarrow> False)"

text \<open>
  A bound on \<open>Math.hypot\<close>: on arguments of magnitude at most \<open>2^k\<close> the result is a
  non-negative number of at most \<open>2^(k+1)\<close> (the exact value is at most \<open>sqrt 2 * 2^k\<close>).
\<close>

definition hypot_ok :: "math \<Rightarrow> bool" where
  "hypot_ok M = (\<forall>a b k. \<bar>a\<bar> \<le> 2 powi k \<and> \<bar>b\<bar> \<le> 2 powi k \<and> - 1074 \<le> k \<and> k \<le> 1022
     \<longrightarrow> nn (k + 1) (hypot_impl M a b))"

text \<open>\<open>Math.hypot\<close> is exact when one argument is zero.\<close>

definition hypot_axis :: "math \<Rightarrow> bool" where
  "hypot_axis M = (\<forall>r. is_double r \<longrightarrow> hypot_impl M r 0 = Num \<bar>r\<bar> \<and> hypot_impl M 0 r = Num \<bar>r\<bar>)"

subsection \<open>The intermediate values of computeMetrics\<close>

text \<open>
  The values the body of \<open>computeMetrics\<close> computes, by the names of its constants.
  The point \<open>[landmarks[i].x, landmarks[i].y]\<close>:
\<close>

definition pt :: "landmark list \<Rightarrow> nat \<Rightarrow> point" where
  "pt lm i = (Num (px (lm ! i)), Num (py (lm ! i)))"

text \<open>The constant \<open>1e-6\<close> of the guards.\<close>

definition epsilon :: jsnum where
  "epsilon = lit (1 / 10 ^ 6)"

definition faceWidth_js :: "math \<Rightarrow> landmark list \<Rightarrow> jsnum" where
  "faceWidth_js M lm = dist M (pt lm LM_faceLeft) (pt lm LM_faceRight)"

definition faceLength_js :: "math \<Rightarrow> landmark list \<Rightarrow> jsnum" where
  "faceLength_js M lm = dist M (pt lm LM_noseBridgeTop) (pt lm LM_chin) * lit 1.4"

definition midlineX_js :: "landmark list \<Rightarrow> jsnum" where
  "midlineX_js lm =
     (fst (meanPoint (map (pt lm) LM_leftEye)) + fst (meanPoint (map (pt lm) LM_rightEye))) / Num 2"

text \<open>
  The point \<open>Rm = [2 * midlineX - R[0], R[1]]\<close> for the landmark \<open>i\<close>.
\<close>

definition mirrored :: "landmark list \<Rightarrow> nat \<Rightarrow> point" where
  "mirrored lm i = (Num 2 * midlineX_js lm - Num (px (lm ! i)), Num (py (lm ! i)))"

definition symmetry_pairs :: "(nat \<times> nat) list" where
  "symmetry_pairs = [(LM_leftOuter, LM_rightOuter), (LM_leftInner, LM_rightInner),
                     (LM_browLeftMid, LM_browRightMid), (LM_noseLeft, LM_noseRight)]"

definition symmetryErr_js :: "math \<Rightarrow> landmark list \<Rightarrow> jsnum" where
  "symmetryErr_js M lm =
     foldl (+) (Num 0)
       (map (\<lambda>lr. dist M (pt lm (fst lr)) (mirrored lm (snd lr))) symmetry_pairs) / Num 4"

definition eyeW_js :: "math \<Rightarrow> landmark list \<Rightarrow> jsnum" where
  "eyeW_js M lm =
     (dist M (Num (px (lm ! LM_leftOuter)), Num (py (lm ! LM_leftInner))) (pt lm LM_leftInner)
      + dist M (Num (px (lm ! LM_rightInner)), Num (py (lm ! LM_rightOuter))) (pt lm LM_rightOuter))
     / Num 2"

definition innerGap_js :: "math \<Rightarrow> landmark list \<Rightarrow> jsnum" where
  "innerGap_js M lm = dist M (pt lm LM_leftInner) (pt lm LM_rightInner)"

definition symmetryNorm_js :: "math \<Rightarrow> landmark list \<Rightarrow> jsnum" where
  "symmetryNorm_js M lm = symmetryErr_js M lm / js_or (faceWidth_js M lm) epsilon"

definition lw_js :: "math \<Rightarrow> landmark list \<Rightarrow> jsnum" where
  "lw_js M lm = faceLength_js M lm / js_or (faceWidth_js M lm) epsilon"

definition fifths_js :: "math \<Rightarrow> landmark list \<Rightarrow> jsnum" where
  "fifths_js M lm = js_or (faceWidth_js M lm) epsilon / js_or (eyeW_js M lm) epsilon"

definition eyeGapRatio_js :: "math \<Rightarrow> landmark list \<Rightarrow> jsnum" where
  "eyeGapRatio_js M lm = innerGap_js M lm / js_or (eyeW_js M lm) epsilon"

text \<open>
  A tolerance whose doubled square \<open>2 * tolerance * tolerance\<close>, as the code computes it,
  is a positive finite number.
\<close>

definition tol_ok :: "jsnum \<Rightarrow> bool" where
  "tol_ok t = (\<exists>d. Num 2 * t * t = Num d \<and> 0 < d)"

text \<open>
  A bound on \<open>Math.exp\<close>: on finite arguments it is not negative and it is monotone.
\<close>

definition exp_ok :: "math \<Rightarrow> bool" where
  "exp_ok M = ((\<forall>a. js_le (Num 0) (Math_exp M (Num a)))
     \<and> (\<forall>a b. a \<le> b \<longrightarrow> js_le (Math_exp M (Num a)) (Math_exp M (Num b))))"

subsection \<open>Mirror symmetry\<close>


section \<open>Sample inputs\<close>

text \<open>
  A landmark set of 468 landmarks (the size of the detector's mesh) from a table of the
  landmarks that matter; every other landmark is at the origin.
\<close>

definition landmarks_of :: "(nat \<times> real \<times> real) list \<Rightarrow> landmark list" where
  "landmarks_of ps =
     map (\<lambda>i. case map_of ps i of Some p \<Rightarrow> \<lparr>px = fst p, py = snd p\<rparr>
                                 | None \<Rightarrow> \<lparr>px = 0, py = 0\<rparr>) [0..<468]"


text \<open>
  A face of width 0 whose eye corners are \<open>2^1024\<close> apart: each coordinate is a finite
  binary64 number.
\<close>

definition blown_eyes_face :: "landmark list" where
  "blown_eyes_face =
     landmarks_of [(33, 2 ^ 1023, 0), (133, - (2 ^ 1023), 0), (362, 2 ^ 1023, 0), (263, - (2 ^ 1023), 0)]"

text \<open>
  The scenario of the specification: face width 100, face length 161.8 (the distance
  from nose bridge to chin is the binary64 number whose product with 1.4 rounds to
  161.8), each eye 20 wide, inner corners 20 apart, the left half the mirror image of the
  right half about the line \<open>x = 0\<close>.
\<close>

definition synthetic_face :: "landmark list" where
  "synthetic_face =
     landmarks_of [(234, - 50, 0), (454, 50, 0), (168, 0, 0), (152, 0, 4066308145695013 / 2 ^ 45),
       (33, - 30, 0), (133, - 10, 0), (159, - 20, - 3), (145, - 20, 3), (153, - 15, 3), (144, - 25, 3),
       (362, 10, 0), (263, 30, 0), (386, 20, - 3), (374, 20, 3), (380, 15, 3), (373, 25, 3),
       (55, - 20, - 15), (285, 20, - 15), (97, - 8, 40), (326, 8, 40)]"

section \<open>Further quantities of the statements\<close>

text \<open>A point with finite coordinates.\<close>

definition finite_pt :: "real \<times> real \<Rightarrow> point" where
  "finite_pt p = (Num (fst p), Num (snd p))"

text \<open>
  The running sums \<open>acc + x\<^sub>1\<close>, \<open>acc + x\<^sub>1 + x\<^sub>2\<close>, ... are binary64 numbers: the
  additions of a \<open>reduce\<close> round nothing.
\<close>

fun sums_exact :: "real \<Rightarrow> real list \<Rightarrow> bool" where
  "sums_exact acc [] = True"
| "sums_exact acc (x # xs) = (is_double (acc + x) \<and> sums_exact (acc + x) xs)"




definition zero_weights :: weights where
  "zero_weights = [(''symmetry'', 0), (''golden'', 0), (''fifths'', 0), (''eyeGap'', 0)]"

definition sample_metrics :: metrics where
  "sample_metrics =
     \<lparr>symmetryScore = Num 80, goldenScore = Num 60, fifthsScore = Num 40, eyeGapScore = Num 20,
      raw = \<lparr>lw = Num 1.5, fifths = Num 4, eyeGapRatio = Num 1.25, symmetryNorm = Num 0.03125\<rparr>\<rparr>"

text \<open>
  The width of an eye as the distance \<open>|outer.x - inner.x|\<close> of its corners, in binary64,
  and the average of the two eyes (the right eye from inner to outer, as in the code).
\<close>

definition cornerWidth :: "landmark list \<Rightarrow> nat \<Rightarrow> nat \<Rightarrow> jsnum" where
  "cornerWidth lm i j = \<bar>Num (px (lm ! i)) - Num (px (lm ! j))\<bar>"

definition avgEyeWidth :: "landmark list \<Rightarrow> jsnum" where
  "avgEyeWidth lm =
     (cornerWidth lm LM_leftOuter LM_leftInner + cornerWidth lm LM_rightInner LM_rightOuter) / Num 2"

text \<open>
  The landmarks \<open>computeMetrics\<close> reads, and a landmark set whose coordinates there have
  magnitude at most \<open>2^1000\<close>.
\<close>

definition used_indices :: "nat list" where
  "used_indices = LM_leftEye @ LM_rightEye @
     [LM_noseBridgeTop, LM_chin, LM_faceLeft, LM_faceRight,
      LM_browLeftMid, LM_browRightMid, LM_noseLeft, LM_noseRight]"

definition bounded_landmarks :: "landmark list \<Rightarrow> bool" where
  "bounded_landmarks lm =
     list_all (\<lambda>i. \<bar>px (lm ! i)\<bar> \<le> 2 ^ 1000 \<and> \<bar>py (lm ! i)\<bar> \<le> 2 ^ 1000) used_indices"


text \<open>A finite number that is not negative; one that is positive.\<close>

definition nonneg_num :: "jsnum \<Rightarrow> bool" where
  "nonneg_num v = (case v of Num r \<Rightarrow> 0 \<le> r | _ \<Rightarrow> False)"

definition pos_num :: "jsnum \<Rightarrow> bool" where
  "pos_num v = (case v of Num r \<Rightarrow> 0 < r | _ \<Rightarrow> False)"



text \<open>The binary64 number nearest to 70.4.\<close>

definition seventy :: real where
  "seventy = 2476979795053773 / 35184372088832"

subsection \<open>Mirror symmetry in the words of the specification\<close>





subsection \<open>The ratios in the words of the specification\<close>

text \<open>
  The Euclidean distance in exact arithmetic, and with it faceLength / faceWidth, where
  faceLength is the distance from nose bridge to chin multiplied by 1.4.
\<close>

definition real_dist :: "landmark \<Rightarrow> landmark \<Rightarrow> real" where
  "real_dist a b = sqrt ((px a - px b) ^ 2 + (py a - py b) ^ 2)"


text \<open>
  The eye width in the words of the specification: the horizontal extent of the eye's
  contour points, and with it the ratio the specification describes.
\<close>

definition extent :: "real list \<Rightarrow> real" where
  "extent xs = fold max xs (hd xs) - fold min xs (hd xs)"

definition contour_fifths :: "landmark list \<Rightarrow> real" where
  "contour_fifths lm =
     real_dist (lm ! LM_faceLeft) (lm ! LM_faceRight)
       / ((extent (map (\<lambda>i. px (lm ! i)) LM_leftEye)
           + extent (map (\<lambda>i. px (lm ! i)) LM_rightEye)) / 2)"

text \<open>
  The synthetic face with one point of the left eye contour left of the outer corner.
\<close>

definition bulging_face :: "landmark list" where
  "bulging_face =
     landmarks_of [(234, - 50, 0), (454, 50, 0), (168, 0, 0), (152, 0, 100),
       (33, - 30, 0), (133, - 10, 0), (159, - 40, - 3), (145, - 20, 3), (153, - 15, 3), (144, - 25, 3),
       (362, 10, 0), (263, 30, 0), (386, 20, - 3), (374, 20, 3), (380, 15, 3), (373, 25, 3),
       (55, - 20, - 15), (285, 20, - 15), (97, - 8, 40), (326, 8, 40)]"

text \<open>The same face with both face-width boundary points at the origin: face width 0.\<close>

definition narrow_face :: "landmark list" where
  "narrow_face =
     landmarks_of [(234, 0, 0), (454, 0, 0), (168, 0, 0), (152, 0, 100),
       (33, - 30, 0), (133, - 10, 0), (159, - 20, - 3), (145, - 20, 3), (153, - 15, 3), (144, - 25, 3),
       (362, 10, 0), (263, 30, 0), (386, 20, - 3), (374, 20, 3), (380, 15, 3), (373, 25, 3),
       (55, - 20, - 15), (285, 20, - 15), (97, - 8, 40), (326, 8, 40)]"

text \<open>A face of width \<open>2^-30\<close>, below \<open>1e-6\<close>, and length 1.4.\<close>

definition tiny_face :: "landmark list" where
  "tiny_face = landmarks_of [(234, 0, 0), (454, 1 / 2 ^ 30, 0), (168, 0, 0), (152, 0, 1)]"

text \<open>Every landmark at the origin.\<close>

definition collapsed_face :: "landmark list" where
  "collapsed_face = landmarks_of []"

section \<open>Properties of rounding\<close>

subsection \<open>Round half even\<close>

lemma rhe_of_int: "round_half_even (of_int n) = n"
  by (simp add: round_half_even_def)

lemma rhe_near:
  assumes "\<bar>y - of_int n\<bar> < 1 / 2"
  shows "round_half_even y = n"
proof -
  have "\<lfloor>y\<rfloor> = n \<or> \<lfloor>y\<rfloor> = n - 1"
    using assms by linarith
  then show ?thesis
  proof
    assume f: "\<lfloor>y\<rfloor> = n"
    then have "y - of_int n < 1 / 2" using assms by linarith
    then show ?thesis by (simp add: round_half_even_def f)
  next
    assume f: "\<lfloor>y\<rfloor> = n - 1"
    have "of_int n \<le> y \<or> y < of_int n" by linarith
    then have "y < of_int n" using f by linarith
    with assms have "1 / 2 < y - of_int (n - 1)" by (simp; linarith)
    then show ?thesis by (simp add: round_half_even_def f)
  qed
qed


lemma rhe_tie_down:
  assumes "y = of_int n + 1 / 2" "even n"
  shows "round_half_even y = n"
proof -
  have f: "\<lfloor>y\<rfloor> = n" using assms(1) by linarith
  have "y - of_int n = 1 / 2" using assms(1) by simp
  then show ?thesis using assms(2) by (simp add: round_half_even_def f)
qed

lemma rhe_bounds: "of_int (round_half_even y) \<le> y + 1 / 2" "y - 1 / 2 \<le> of_int (round_half_even y)"
  unfolding round_half_even_def Let_def by (auto; linarith)+

lemma rhe_le: "y \<le> of_int n \<Longrightarrow> round_half_even y \<le> n"
  using rhe_bounds(1) [of y] by linarith

lemma rhe_ge: "of_int n \<le> y \<Longrightarrow> n \<le> round_half_even y"
  using rhe_bounds(2) [of y] by linarith

lemma rhe_mono:
  assumes "x \<le> y"
  shows "round_half_even x \<le> round_half_even y"
proof (rule ccontr)
  assume "\<not> ?thesis"
  then have gt: "round_half_even y + 1 \<le> round_half_even x" by simp
  have "of_int (round_half_even x) \<le> x + 1 / 2" by (rule rhe_bounds)
  moreover have "y - 1 / 2 \<le> of_int (round_half_even y)" by (rule rhe_bounds)
  ultimately have eq: "round_half_even x = round_half_even y + 1"
    and xy: "x = y"
    and xv: "x = of_int (round_half_even x) - 1 / 2"
    using assms gt by linarith+
  from xy eq show False by simp
qed

subsection \<open>Binades\<close>

lemma powr_powi: "2 powr (of_int k) = (2::real) powi k"
  by (simp add: powr_real_of_int power_int_def field_simps)

lemma floor_log2:
  assumes "0 < x"
  shows "2 powi \<lfloor>log 2 x\<rfloor> \<le> x" "x < 2 powi (\<lfloor>log 2 x\<rfloor> + 1)"
proof -
  have "2 powr (of_int \<lfloor>log 2 x\<rfloor>) \<le> x \<and> x < 2 powr (of_int \<lfloor>log 2 x\<rfloor> + 1)"
    using floor_log_eq_powr_iff [of x 2 "\<lfloor>log 2 x\<rfloor>"] assms by simp
  then have "2 powr (of_int \<lfloor>log 2 x\<rfloor>) \<le> x" "x < 2 powr (of_int (\<lfloor>log 2 x\<rfloor> + 1))"
    by simp_all
  then show "2 powi \<lfloor>log 2 x\<rfloor> \<le> x" "x < 2 powi (\<lfloor>log 2 x\<rfloor> + 1)"
    by (simp_all only: powr_powi)
qed

lemma floor_log2_eqI:
  assumes "0 < x" "2 powi e \<le> x" "x < 2 powi (e + 1)"
  shows "\<lfloor>log 2 x\<rfloor> = e"
proof -
  have "2 powr (of_int e) \<le> x" "x < 2 powr (of_int (e + 1))"
    using assms by (simp_all only: powr_powi)
  then show ?thesis
    using floor_log_eq_powr_iff [of x 2 e] assms(1) by simp
qed

lemma binade_ge: "- 1022 \<le> binade x"
  by (simp add: binade_def)

lemma binade_upper:
  assumes "0 < x"
  shows "x < 2 powi (binade x + 1)"
proof -
  have "x < 2 powi (\<lfloor>log 2 x\<rfloor> + 1)" using assms by (rule floor_log2)
  also have "\<dots> \<le> 2 powi (binade x + 1)"
    by (rule power_int_increasing) (simp_all add: binade_def)
  finally show ?thesis .
qed

lemma binade_lower:
  assumes "0 < x" "2 powi (- 1022) \<le> x"
  shows "2 powi binade x \<le> x"
proof -
  have "- 1022 \<le> \<lfloor>log 2 x\<rfloor>"
  proof (rule ccontr)
    assume "\<not> ?thesis"
    then have "\<lfloor>log 2 x\<rfloor> + 1 \<le> - 1022" by linarith
    then have "(2::real) powi (\<lfloor>log 2 x\<rfloor> + 1) \<le> 2 powi (- 1022)"
      by (intro power_int_increasing) simp_all
    with floor_log2(2) [OF assms(1)] assms(2) show False by linarith
  qed
  then have "binade x = \<lfloor>log 2 x\<rfloor>" by (simp add: binade_def)
  with floor_log2(1) [OF assms(1)] show ?thesis by simp
qed

lemma binade_eqI:
  assumes "0 < x" "2 powi e \<le> x" "x < 2 powi (e + 1)" "- 1022 \<le> e"
  shows "binade x = e"
  using floor_log2_eqI [OF assms(1-3)] assms(4) by (simp add: binade_def)

lemma binade_subnormal:
  assumes "0 < x" "x < 2 powi (- 1022)"
  shows "binade x = - 1022"
proof -
  have "\<lfloor>log 2 x\<rfloor> < - 1022"
  proof (rule ccontr)
    assume "\<not> ?thesis"
    then have "(2::real) powi (- 1022) \<le> 2 powi \<lfloor>log 2 x\<rfloor>"
      by (intro power_int_increasing) simp_all
    with floor_log2(1) [OF assms(1)] assms(2) show False by linarith
  qed
  then show ?thesis by (simp add: binade_def)
qed

lemma binade_mono:
  assumes "0 < x" "x \<le> y"
  shows "binade x \<le> binade y"
proof -
  have "log 2 x \<le> log 2 y" using assms by simp
  then have "\<lfloor>log 2 x\<rfloor> \<le> \<lfloor>log 2 y\<rfloor>" by (rule floor_mono)
  then show ?thesis by (simp add: binade_def)
qed

subsection \<open>Rounding a magnitude\<close>

lemma quantum_pos: "0 < quantum x"
  by (simp add: quantum_def zero_less_power_int)

lemma round_mag_val: "round_mag x = (if 2 ^ 1024 \<le> mag_val x then PosInf else Num (mag_val x))"
  by (simp add: round_mag_def mag_val_def quantum_def Let_def)

lemma quantum_times: "quantum x * 2 ^ 53 = 2 powi (binade x + 1)" "quantum x * 2 ^ 52 = 2 powi binade x"
proof -
  have "(2::real) powi (binade x - 52 + 53) = 2 powi (binade x - 52) * 2 powi 53"
    by (rule power_int_add) simp
  moreover have "binade x - 52 + 53 = binade x + 1" by simp
  ultimately show "quantum x * 2 ^ 53 = 2 powi (binade x + 1)"
    by (simp add: quantum_def)
  have "(2::real) powi (binade x - 52 + 52) = 2 powi (binade x - 52) * 2 powi 52"
    by (rule power_int_add) simp
  moreover have "binade x - 52 + 52 = binade x" by simp
  ultimately show "quantum x * 2 ^ 52 = 2 powi binade x"
    by (simp add: quantum_def)
qed

lemma mag_val_upper:
  assumes "0 < x"
  shows "mag_val x \<le> 2 powi (binade x + 1)"
proof -
  have "x < quantum x * 2 ^ 53"
    using binade_upper [OF assms] quantum_times(1) [of x] by simp
  then have "x / quantum x \<le> of_int (2 ^ 53)"
    using quantum_pos [of x] by (simp add: pos_divide_le_eq mult.commute)
  then have "round_half_even (x / quantum x) \<le> 2 ^ 53" by (rule rhe_le)
  then have "(of_int (round_half_even (x / quantum x)) :: real) \<le> of_int (2 ^ 53)"
    by (simp only: of_int_le_iff)
  then have "mag_val x \<le> 2 ^ 53 * quantum x"
    unfolding mag_val_def using quantum_pos [of x] by (intro mult_right_mono) simp_all
  then show ?thesis using quantum_times [of x] by (simp add: mult.commute)
qed

lemma mag_val_lower:
  assumes "0 < x" "2 powi (- 1022) \<le> x"
  shows "2 powi binade x \<le> mag_val x"
proof -
  have "quantum x * 2 ^ 52 \<le> x"
    using binade_lower [OF assms] quantum_times(2) [of x] by simp
  then have "of_int (2 ^ 52) \<le> x / quantum x"
    using quantum_pos [of x] by (simp add: pos_le_divide_eq mult.commute)
  then have "2 ^ 52 \<le> round_half_even (x / quantum x)" by (rule rhe_ge)
  then have "(of_int (2 ^ 52) :: real) \<le> of_int (round_half_even (x / quantum x))"
    by (simp only: of_int_le_iff)
  then have "2 ^ 52 * quantum x \<le> mag_val x"
    unfolding mag_val_def using quantum_pos [of x] by (intro mult_right_mono) simp_all
  then show ?thesis using quantum_times [of x] by (simp add: mult.commute)
qed

lemma mag_val_nonneg:
  assumes "0 < x"
  shows "0 \<le> mag_val x"
proof -
  have "of_int 0 \<le> x / quantum x" using assms quantum_pos [of x] by simp
  then have "0 \<le> round_half_even (x / quantum x)" by (rule rhe_ge)
  then show ?thesis unfolding mag_val_def using quantum_pos [of x] by simp
qed

lemma mag_val_mono:
  assumes "0 < x" "x \<le> y"
  shows "mag_val x \<le> mag_val y"
proof -
  have y: "0 < y" using assms by simp
  have le: "binade x \<le> binade y" using assms by (rule binade_mono)
  show ?thesis
  proof (cases "binade x = binade y")
    case True
    then have q: "quantum x = quantum y" by (simp add: quantum_def)
    have "x / quantum y \<le> y / quantum y"
      using assms(2) quantum_pos [of y] by (simp add: divide_right_mono)
    then have "round_half_even (x / quantum y) \<le> round_half_even (y / quantum y)"
      by (rule rhe_mono)
    then have "(of_int (round_half_even (x / quantum y)) :: real) \<le> of_int (round_half_even (y / quantum y))"
      by (simp only: of_int_le_iff)
    then show ?thesis
      unfolding mag_val_def q using quantum_pos [of y] by (intro mult_right_mono) simp_all
  next
    case False
    with le have lt: "binade x + 1 \<le> binade y" by simp
    then have "- 1022 < binade y" using binade_ge [of x] by simp
    then have "2 powi (- 1022) \<le> y"
      using binade_subnormal [OF y] by fastforce
    then have "2 powi binade y \<le> mag_val y" using y by (intro mag_val_lower)
    moreover have "(2::real) powi (binade x + 1) \<le> 2 powi binade y"
      using lt by (intro power_int_increasing) simp_all
    moreover have "mag_val x \<le> 2 powi (binade x + 1)" using assms(1) by (rule mag_val_upper)
    ultimately show ?thesis by linarith
  qed
qed

subsection \<open>Monotonicity of rounding\<close>

lemma round_mag_cases:
  assumes "0 < x"
  shows "round_mag x = PosInf \<or> (\<exists>r. round_mag x = Num r \<and> 0 \<le> r \<and> r < 2 ^ 1024)"
  using mag_val_nonneg [OF assms] by (auto simp add: round_mag_val)

lemma round_mag_mono:
  assumes "0 < x" "x \<le> y"
  shows "js_le (round_mag x) (round_mag y)"
  using mag_val_mono [OF assms] by (auto simp add: round_mag_val)

lemma js_le_uminus: "js_le a b \<Longrightarrow> js_le (- b) (- a)"
  by (cases a; cases b) simp_all

lemma round64_mono:
  assumes "x \<le> y"
  shows "js_le (round64 x) (round64 y)"
proof -
  consider "0 < x" | "x = 0" "y = 0" | "x = 0" "0 < y" | "x < 0" "y < 0" | "x < 0" "y = 0" | "x < 0" "0 < y"
    using assms by linarith
  then show ?thesis
  proof cases
    case 1
    then show ?thesis using assms by (simp add: round64_def round_mag_mono)
  next
    case 2
    then show ?thesis by (simp add: round64_def)
  next
    case 3
    then show ?thesis using round_mag_cases [of y] by (auto simp add: round64_def)
  next
    case 4
    then have "js_le (round_mag (- y)) (round_mag (- x))"
      using assms by (intro round_mag_mono) simp_all
    then show ?thesis using 4 by (simp add: round64_def js_le_uminus)
  next
    case 5
    then show ?thesis using round_mag_cases [of "- x"] by (auto simp add: round64_def)
  next
    case 6
    then show ?thesis
      using round_mag_cases [of "- x"] round_mag_cases [of y] by (auto simp add: round64_def)
  qed
qed

lemma round64_uminus: "round64 (- x) = - round64 x"
proof -
  have "- (- a) = a" for a :: jsnum by (cases a) simp_all
  then show ?thesis by (simp add: round64_def)
qed

lemma round64_not_NaN: "round64 x \<noteq> NaN"
proof -
  have "round_mag y \<noteq> NaN" for y by (simp add: round_mag_val)
  moreover have "- a \<noteq> NaN" if "a \<noteq> NaN" for a :: jsnum using that by (cases a) simp_all
  ultimately show ?thesis by (simp add: round64_def)
qed

subsection \<open>Evaluating a rounding\<close>

lemma round64_eval:
  assumes "0 < x" "2 powi e \<le> x" "x < 2 powi (e + 1)" "- 1022 \<le> e"
    and "round_half_even (x / 2 powi (e - 52)) = n"
    and "of_int n * 2 powi (e - 52) < (2::real) ^ 1024"
  shows "round64 x = Num (of_int n * 2 powi (e - 52))"
proof -
  have "binade x = e" using assms(1-4) by (rule binade_eqI)
  then have "mag_val x = of_int n * 2 powi (e - 52)"
    using assms(5) by (simp add: mag_val_def quantum_def)
  then show ?thesis
    using assms(1,6) by (simp add: round64_def round_mag_val)
qed

lemma round64_eval_subnormal:
  assumes "0 < x" "x < 2 powi (- 1022)"
    and "round_half_even (x / 2 powi (- 1074)) = n"
  shows "round64 x = Num (of_int n * 2 powi (- 1074))"
proof -
  have b: "binade x = - 1022" using assms(1,2) by (rule binade_subnormal)
  then have m: "mag_val x = of_int n * 2 powi (- 1074)"
    using assms(3) by (simp add: mag_val_def quantum_def)
  have "mag_val x \<le> 2 powi (binade x + 1)" using assms(1) by (rule mag_val_upper)
  also have "\<dots> \<le> 2 powi 1"
    unfolding b by (rule power_int_increasing) simp_all
  finally have "mag_val x < 2 ^ 1024"
    by (simp add: less_le_trans [of _ 2])
  then show ?thesis
    using assms(1) m by (simp add: round64_def round_mag_val)
qed

lemma round64_underflow:
  assumes "\<bar>x\<bar> < 2 powi (- 1075)"
  shows "round64 x = Num 0"
proof -
  have pos: "round64 y = Num 0" if "0 < y" "y < 2 powi (- 1075)" for y
  proof -
    have half: "(2::real) powi (- 1075) = 2 powi (- 1074) * (1 / 2)"
      using power_int_add [of "2::real" "- 1074" "- 1"] by simp
    have "(2::real) powi (- 1075) \<le> 2 powi (- 1022)"
      by (rule power_int_increasing) simp_all
    then have sub: "y < 2 powi (- 1022)" using that by linarith
    have "y / 2 powi (- 1074) < 1 / 2"
      using that(2) by (simp add: half pos_divide_less_eq zero_less_power_int mult.commute)
    moreover have "0 < y / 2 powi (- 1074)"
      using that(1) by (simp add: zero_less_power_int)
    ultimately have "round_half_even (y / 2 powi (- 1074)) = 0"
      by (intro rhe_near) simp
    from round64_eval_subnormal [OF that(1) sub this] show ?thesis by simp
  qed
  consider "0 < x" | "x = 0" | "x < 0" by linarith
  then show ?thesis
  proof cases
    case 1
    then show ?thesis using assms by (intro pos) simp_all
  next
    case 2
    then show ?thesis by (simp add: round64_def)
  next
    case 3
    then have "round64 (- x) = Num 0" using assms by (intro pos) simp_all
    then show ?thesis by (simp add: round64_uminus) (cases "round64 x"; simp)
  qed
qed

lemma binade_lower':
  assumes "0 < x" "- 1022 < binade x"
  shows "2 powi binade x \<le> x"
proof -
  have "2 powi (- 1022) \<le> x"
    using binade_subnormal [OF assms(1)] assms(2) by fastforce
  with assms(1) show ?thesis by (rule binade_lower)
qed

lemma round64_overflow:
  assumes "2 ^ 1024 \<le> x"
  shows "round64 x = PosInf"
proof -
  have x: "0 < x" using assms by (simp add: less_le_trans [of _ "2 ^ 1024"])
  have "binade (2 ^ 1024) = 1024"
    by (rule binade_eqI) simp_all
  then have b: "1024 \<le> binade x"
    using binade_mono [of "2 ^ 1024" x] assms by simp
  then have "2 powi binade x \<le> x" using x by (intro binade_lower') simp_all
  then have "2 powi (- 1022) \<le> x"
    using power_int_increasing [of "- 1022" "binade x" "2::real"] b by simp
  then have "2 powi binade x \<le> mag_val x" using x by (intro mag_val_lower)
  moreover have "(2::real) powi 1024 \<le> 2 powi binade x"
    using b by (intro power_int_increasing) simp_all
  ultimately have "2 ^ 1024 \<le> mag_val x" by simp
  then show ?thesis using x by (simp add: round64_def round_mag_val)
qed

subsection \<open>Binary64 numbers\<close>

lemma round64_dyadic_pos:
  assumes "0 < m" "m < 2 ^ 53" "- 1074 \<le> k" "of_int m * 2 powi k < (2::real) ^ 1024"
  shows "round64 (of_int m * 2 powi k) = Num (of_int m * 2 powi k)"
proof -
  define x :: real where "x = of_int m * 2 powi k"
  have x: "0 < x" using assms(1) by (simp add: x_def zero_less_power_int)
  have up: "x < 2 powi (k + 53)"
  proof -
    have "x < of_int (2 ^ 53) * 2 powi k"
      unfolding x_def using assms(2) by (intro mult_strict_right_mono) (simp_all add: zero_less_power_int)
    also have "\<dots> = 2 powi (k + 53)"
      using power_int_add [of "2::real" k 53] by (simp add: mult.commute)
    finally show ?thesis .
  qed
  have le: "binade x \<le> k + 52"
  proof (rule ccontr)
    assume "\<not> ?thesis"
    then have big: "k + 53 \<le> binade x" by simp
    with assms(3) have "- 1022 < binade x" by simp
    with x have "2 powi binade x \<le> x" by (rule binade_lower')
    moreover have "(2::real) powi (k + 53) \<le> 2 powi binade x"
      using big by (intro power_int_increasing) simp_all
    ultimately show False using up by linarith
  qed
  define j where "j = nat (k + 52 - binade x)"
  define Q where "Q = quantum x"
  have Q: "0 < Q" unfolding Q_def by (rule quantum_pos)
  have q: "2 powi k = Q * 2 ^ j"
  proof -
    have "(2::real) powi (binade x - 52 + int j) = 2 powi (binade x - 52) * 2 powi (int j)"
      by (rule power_int_add) simp
    moreover have "binade x - 52 + int j = k" using le by (simp add: j_def)
    ultimately show ?thesis by (simp add: Q_def quantum_def)
  qed
  have xq: "x = of_int (m * 2 ^ j) * Q"
    unfolding x_def q by simp
  then have "x / Q = of_int (m * 2 ^ j)"
    using Q by simp
  then have "round_half_even (x / Q) = m * 2 ^ j"
    by (simp only: rhe_of_int)
  then have "mag_val x = x"
    unfolding mag_val_def Q_def [symmetric] using xq by simp
  then show ?thesis
    using x assms(4) by (simp add: round64_def round_mag_val x_def [symmetric])
qed

lemma round64_dyadic:
  assumes "\<bar>m\<bar> < 2 ^ 53" "- 1074 \<le> k" "\<bar>of_int m * 2 powi k\<bar> < (2::real) ^ 1024"
  shows "round64 (of_int m * 2 powi k) = Num (of_int m * 2 powi k)"
proof -
  consider "0 < m" | "m = 0" | "m < 0" by linarith
  then show ?thesis
  proof cases
    case 1
    then show ?thesis using assms by (intro round64_dyadic_pos) (simp_all add: abs_mult)
  next
    case 2
    then show ?thesis by (simp add: round64_def)
  next
    case 3
    then have "round64 (of_int (- m) * 2 powi k) = Num (of_int (- m) * 2 powi k)"
      using assms by (intro round64_dyadic_pos) (simp_all add: abs_mult)
    then have "- round64 (of_int m * 2 powi k) = Num (- (of_int m * 2 powi k))"
      by (simp add: round64_uminus [symmetric])
    then show ?thesis by (cases "round64 (of_int m * 2 powi k)") simp_all
  qed
qed

lemma round64_idem:
  assumes "round64 x = Num r"
  shows "round64 r = Num r"
proof -
  have pos: "round64 s = Num s" if "0 < y" "round64 y = Num s" for y s
  proof -
    define n where "n = round_half_even (y / quantum y)"
    have s: "s = of_int n * quantum y" and small: "s < 2 ^ 1024"
      using that by (auto simp add: round64_def round_mag_val mag_val_def n_def split: if_splits)
    have n0: "0 \<le> n"
      using mag_val_nonneg [OF that(1)] quantum_pos [of y]
      by (simp add: mag_val_def n_def zero_le_mult_iff)
    have "of_int n * quantum y \<le> 2 powi (binade y + 1)"
      using mag_val_upper [OF that(1)] by (simp add: mag_val_def n_def)
    then have "of_int n * quantum y \<le> of_int (2 ^ 53) * quantum y"
      using quantum_times(1) [of y] by (simp add: mult.commute)
    then have n53: "n \<le> 2 ^ 53"
      using quantum_pos [of y] by (simp only: mult_le_cancel_right_pos of_int_le_iff)
    have k: "- 1074 \<le> binade y - 52" using binade_ge [of y] by simp
    show ?thesis
    proof (cases "n = 2 ^ 53")
      case True
      then have "s = 2 powi (binade y + 1)"
        using quantum_times(1) [of y] by (simp add: s mult.commute)
      then have "s = of_int 1 * 2 powi (binade y + 1)" by simp
      moreover have "round64 (of_int 1 * 2 powi (binade y + 1)) = Num (of_int 1 * 2 powi (binade y + 1))"
        using k small \<open>s = 2 powi (binade y + 1)\<close>
        by (intro round64_dyadic) (simp_all add: zero_less_power_int)
      ultimately show ?thesis by simp
    next
      case False
      with n53 n0 have "\<bar>n\<bar> < 2 ^ 53" by simp
      moreover have "\<bar>of_int n * 2 powi (binade y - 52)\<bar> < (2::real) ^ 1024"
        using small n0 s by (simp add: quantum_def abs_mult zero_less_power_int)
      ultimately have "round64 (of_int n * 2 powi (binade y - 52)) = Num (of_int n * 2 powi (binade y - 52))"
        using k by (intro round64_dyadic)
      then show ?thesis by (simp add: s quantum_def)
    qed
  qed
  consider "0 < x" | "x = 0" | "x < 0" by linarith
  then show ?thesis
  proof cases
    case 1
    then show ?thesis using assms by (rule pos)
  next
    case 2
    with assms show ?thesis by (auto simp add: round64_def)
  next
    case 3
    have "round64 (- x) = Num (- r)"
      using assms by (simp add: round64_uminus)
    with 3 have "round64 (- r) = Num (- r)" by (intro pos [of "- x"]) simp_all
    then have "- round64 r = Num (- r)" by (simp add: round64_uminus)
    then show ?thesis by (cases "round64 r") simp_all
  qed
qed

lemma is_double_round: "round64 x = Num r \<Longrightarrow> is_double r"
  unfolding is_double_def by (rule round64_idem)

lemma is_double_dyadic:
  "\<bar>m\<bar> < 2 ^ 53 \<Longrightarrow> - 1074 \<le> k \<Longrightarrow> \<bar>of_int m * 2 powi k\<bar> < (2::real) ^ 1024 \<Longrightarrow>
   is_double (of_int m * 2 powi k)"
  unfolding is_double_def by (rule round64_dyadic)

lemma is_double_uminus: "is_double (- r) = is_double r"
  unfolding is_double_def round64_uminus by (cases "round64 r") auto

lemma is_double_abs: "is_double \<bar>r\<bar> = is_double r"
  by (simp add: abs_if is_double_uminus)

lemma is_double_0: "is_double 0"
  by (simp add: is_double_def round64_def)

lemma is_double_int: "\<bar>m\<bar> < 2 ^ 53 \<Longrightarrow> is_double (of_int m)"
  using is_double_dyadic [of m 0] by simp

lemma is_double_pow2: "- 1074 \<le> k \<Longrightarrow> k \<le> 1023 \<Longrightarrow> is_double (2 powi k)"
proof -
  assume k: "- 1074 \<le> k" "k \<le> 1023"
  have "(2::real) powi k \<le> 2 powi 1023" using k by (intro power_int_increasing) simp_all
  then have "(2::real) powi k < 2 ^ 1024" by (simp add: less_le_trans [of _ "2 ^ 1024"] le_less_trans [of _ "2 ^ 1023"])
  then show ?thesis using is_double_dyadic [of 1 k] k by (simp add: zero_less_power_int)
qed

lemma round64_between:
  assumes "is_double lo" "is_double hi" "lo \<le> x" "x \<le> hi"
  shows "\<exists>r. round64 x = Num r \<and> lo \<le> r \<and> r \<le> hi"
proof -
  have "js_le (Num lo) (round64 x)" "js_le (round64 x) (Num hi)"
    using round64_mono [OF assms(3)] round64_mono [OF assms(4)] assms(1,2)
    by (simp_all add: is_double_def)
  then show ?thesis by (cases "round64 x") simp_all
qed

section \<open>Bounds through the arithmetic\<close>

lemma fin_Num: "fin k (Num r) = (\<bar>r\<bar> \<le> 2 powi k)"
  by (simp add: fin_def)

lemma nn_Num: "nn k (Num r) = (0 \<le> r \<and> r \<le> 2 powi k)"
  by (simp add: nn_def)

lemma finE: "fin k v \<Longrightarrow> (\<And>r. v = Num r \<Longrightarrow> \<bar>r\<bar> \<le> 2 powi k \<Longrightarrow> P) \<Longrightarrow> P"
  by (cases v) (simp_all add: fin_def)

lemma nnE: "nn k v \<Longrightarrow> (\<And>r. v = Num r \<Longrightarrow> 0 \<le> r \<Longrightarrow> r \<le> 2 powi k \<Longrightarrow> P) \<Longrightarrow> P"
  by (cases v) (simp_all add: nn_def)

lemma nn_fin: "nn k v \<Longrightarrow> fin k v"
  by (cases v) (simp_all add: nn_def fin_def)

lemma fin_mono: "fin k v \<Longrightarrow> k \<le> k' \<Longrightarrow> fin k' v"
  using power_int_increasing [of k k' "2::real"] by (cases v) (auto simp add: fin_def)

lemma nn_mono: "nn k v \<Longrightarrow> k \<le> k' \<Longrightarrow> nn k' v"
  using power_int_increasing [of k k' "2::real"] by (cases v) (auto simp add: nn_def)

lemma round64_fin:
  assumes "\<bar>x\<bar> \<le> 2 powi k" "- 1074 \<le> k" "k \<le> 1023"
  shows "fin k (round64 x)"
proof -
  have d: "is_double (2 powi k)" using assms(2,3) by (rule is_double_pow2)
  then have "is_double (- (2 powi k))" by (simp add: is_double_uminus)
  moreover have "- (2 powi k) \<le> x" "x \<le> 2 powi k" using assms(1) by linarith+
  ultimately obtain r where "round64 x = Num r" "- (2 powi k) \<le> r" "r \<le> 2 powi k"
    using round64_between [of "- (2 powi k)" "2 powi k" x] d by blast
  then show ?thesis by (simp add: fin_def)
qed

lemma round64_nn:
  assumes "0 \<le> x" "x \<le> 2 powi k" "- 1074 \<le> k" "k \<le> 1023"
  shows "nn k (round64 x)"
proof -
  have d: "is_double (2 powi k)" using assms(3,4) by (rule is_double_pow2)
  from round64_between [OF is_double_0 d, of x] assms(1,2)
  obtain r where "round64 x = Num r" "0 \<le> r" "r \<le> 2 powi k" by auto
  then show ?thesis by (simp add: nn_def)
qed

lemma pow2_double: "(2::real) powi k + 2 powi k = 2 powi (k + 1)"
  using power_int_add [of "2::real" k 1] by simp

lemma fin_add:
  assumes "fin k a" "fin k b" "- 1075 \<le> k" "k \<le> 1022"
  shows "fin (k + 1) (a + b)"
proof -
  from assms(1) obtain x where a: "a = Num x" and x: "\<bar>x\<bar> \<le> 2 powi k" by (rule finE)
  from assms(2) obtain y where b: "b = Num y" and y: "\<bar>y\<bar> \<le> 2 powi k" by (rule finE)
  have "\<bar>x + y\<bar> \<le> 2 powi (k + 1)" using x y pow2_double [of k] by linarith
  then show ?thesis using assms(3,4) by (simp add: a b round64_fin)
qed

lemma fin_uminus: "fin k (- a) = fin k a"
  by (cases a) (simp_all add: fin_def)

lemma fin_sub:
  assumes "fin k a" "fin k b" "- 1075 \<le> k" "k \<le> 1022"
  shows "fin (k + 1) (a - b)"
  unfolding minus_jsnum_def using assms by (intro fin_add) (simp_all add: fin_uminus)

lemma nn_add:
  assumes "nn k a" "nn k b" "- 1075 \<le> k" "k \<le> 1022"
  shows "nn (k + 1) (a + b)"
proof -
  from assms(1) obtain x where a: "a = Num x" and x: "0 \<le> x" "x \<le> 2 powi k" by (rule nnE)
  from assms(2) obtain y where b: "b = Num y" and y: "0 \<le> y" "y \<le> 2 powi k" by (rule nnE)
  have "x + y \<le> 2 powi (k + 1)" using x y pow2_double [of k] by linarith
  then show ?thesis using assms(3,4) x y by (simp add: a b round64_nn)
qed

lemma fin_div:
  assumes "fin k a" "1 \<le> n" "- 1074 \<le> k" "k \<le> 1023"
  shows "fin k (a / Num n)"
proof -
  from assms(1) obtain x where a: "a = Num x" and x: "\<bar>x\<bar> \<le> 2 powi k" by (rule finE)
  have "\<bar>x\<bar> / n \<le> \<bar>x\<bar> / 1" using assms(2) by (intro divide_left_mono) simp_all
  then have "\<bar>x / n\<bar> \<le> \<bar>x\<bar>" using assms(2) by simp
  then have "\<bar>x / n\<bar> \<le> 2 powi k" using x by linarith
  then show ?thesis using assms by (simp add: a round64_fin)
qed

lemma nn_div:
  assumes "nn k a" "1 \<le> n" "- 1074 \<le> k" "k \<le> 1023"
  shows "nn k (a / Num n)"
proof -
  from assms(1) obtain x where a: "a = Num x" and x: "0 \<le> x" "x \<le> 2 powi k" by (rule nnE)
  have "x / n \<le> x / 1" using assms(2) x(1) by (intro divide_left_mono) simp_all
  then have "x / n \<le> x" by simp
  then have "x / n \<le> 2 powi k" "0 \<le> x / n" using x assms(2) by simp_all
  then show ?thesis using assms by (simp add: a round64_nn)
qed

lemma fin_twice:
  assumes "fin k a" "- 1075 \<le> k" "k \<le> 1022"
  shows "fin (k + 1) (Num 2 * a)"
proof -
  from assms(1) obtain x where a: "a = Num x" and x: "\<bar>x\<bar> \<le> 2 powi k" by (rule finE)
  have "\<bar>2 * x\<bar> \<le> 2 powi (k + 1)" using x pow2_double [of k] by simp
  then show ?thesis using assms(2,3) by (simp add: a round64_fin)
qed

section \<open>The engine on a landmark set that has every index of the table\<close>

lemmas LM_defs =
  LM_leftEye_def LM_rightEye_def LM_leftInner_def LM_rightInner_def LM_leftOuter_def
  LM_rightOuter_def LM_noseBridgeTop_def LM_noseLeft_def LM_noseRight_def LM_chin_def
  LM_faceLeft_def LM_faceRight_def LM_browLeftMid_def LM_browRightMid_def

lemma getPts_ok:
  "\<forall>i\<in>set idxs. i < length lm \<Longrightarrow> getPts lm idxs = Inr (map (pt lm) idxs)"
  by (induction idxs) (simp_all add: getPts_def xy_def and_then_def pt_def)

lemma symErr_ok:
  "fst lr < length lm \<Longrightarrow> snd lr < length lm \<Longrightarrow>
   symErr M lm mx lr
     = Inr (dist M (pt lm (fst lr)) (Num 2 * mx - Num (px (lm ! snd lr)), Num (py (lm ! snd lr))))"
  by (simp add: symErr_def xy_def and_then_def pt_def Let_def)

lemma symErrs_ok:
  "\<forall>lr\<in>set prs. fst lr < length lm \<and> snd lr < length lm \<Longrightarrow>
   map_throwing (symErr M lm mx) prs
     = Inr (map (\<lambda>lr. dist M (pt lm (fst lr))
                    (Num 2 * mx - Num (px (lm ! snd lr)), Num (py (lm ! snd lr)))) prs)"
  by (induction prs) (simp_all add: symErr_ok and_then_def)

lemma computeMetrics_eq:
  assumes "454 < length lm"
  shows "computeMetrics M lm = Inr
    \<lparr>symmetryScore = scoreFromError M (symmetryNorm_js M lm) (lit 0.04),
     goldenScore = scoreFromError M (\<bar>lw_js M lm - lit 1.618\<bar> / lit 1.618) (lit 0.15),
     fifthsScore = scoreFromError M (\<bar>fifths_js M lm - Num 5\<bar> / Num 5) (lit 0.18),
     eyeGapScore = scoreFromError M \<bar>eyeGapRatio_js M lm - Num 1\<bar> (lit 0.25),
     raw = \<lparr>lw = lw_js M lm, fifths = fifths_js M lm, eyeGapRatio = eyeGapRatio_js M lm,
            symmetryNorm = symmetryNorm_js M lm\<rparr>\<rparr>"
proof -
  have len: "\<forall>i\<in>set LM_leftEye. i < length lm" "\<forall>i\<in>set LM_rightEye. i < length lm"
    using assms by (simp_all add: LM_defs)
  have prs: "\<forall>lr\<in>set symmetry_pairs. fst lr < length lm \<and> snd lr < length lm"
    using assms by (simp add: symmetry_pairs_def LM_defs)
  have se: "map_throwing (symErr M lm mx)
              [(LM_leftOuter, LM_rightOuter), (LM_leftInner, LM_rightInner),
               (LM_browLeftMid, LM_browRightMid), (LM_noseLeft, LM_noseRight)]
            = Inr (map (\<lambda>lr. dist M (pt lm (fst lr))
                    (Num 2 * mx - Num (px (lm ! snd lr)), Num (py (lm ! snd lr)))) symmetry_pairs)" for mx
    using symErrs_ok [OF prs] by (simp only: symmetry_pairs_def)
  have len4: "length symmetry_pairs = 4"
    by (simp add: symmetry_pairs_def)
  have xy: "xy lm i j = Inr (Num (px (lm ! i)), Num (py (lm ! j)))" if "i \<le> 454" "j \<le> 454" for i j
    using assms that by (simp add: xy_def)
  have xys: "xy lm LM_faceLeft LM_faceLeft = Inr (pt lm LM_faceLeft)"
    "xy lm LM_faceRight LM_faceRight = Inr (pt lm LM_faceRight)"
    "xy lm LM_chin LM_chin = Inr (pt lm LM_chin)"
    "xy lm LM_noseBridgeTop LM_noseBridgeTop = Inr (pt lm LM_noseBridgeTop)"
    "xy lm LM_leftOuter LM_leftInner = Inr (Num (px (lm ! LM_leftOuter)), Num (py (lm ! LM_leftInner)))"
    "xy lm LM_leftInner LM_leftInner = Inr (pt lm LM_leftInner)"
    "xy lm LM_rightInner LM_rightOuter = Inr (Num (px (lm ! LM_rightInner)), Num (py (lm ! LM_rightOuter)))"
    "xy lm LM_rightOuter LM_rightOuter = Inr (pt lm LM_rightOuter)"
    "xy lm LM_rightInner LM_rightInner = Inr (pt lm LM_rightInner)"
    by (simp_all add: xy pt_def LM_defs)
  show ?thesis
    unfolding computeMetrics_def getPts_ok [OF len(1)] getPts_ok [OF len(2)]
    by (simp only: and_then_def sum.case Let_def se xys length_map len4 fst_conv snd_conv
        symmetryNorm_js_def lw_js_def fifths_js_def eyeGapRatio_js_def symmetryErr_js_def
        faceWidth_js_def faceLength_js_def eyeW_js_def innerGap_js_def midlineX_js_def
        mirrored_def epsilon_def)
      simp
qed

text \<open>
  A landmark set that lacks an index of the table makes \<open>computeMetrics\<close> throw.
\<close>

lemma computeMetrics_missing:
  assumes "length lm \<le> 454"
  shows "computeMetrics M lm = Inl TypeError"
proof -
  have "xy lm LM_faceRight LM_faceRight = Inl TypeError"
    using assms by (simp add: xy_def LM_faceRight_def)
  moreover have "e = TypeError" for e :: js_error
    by (cases e) simp
  ultimately show ?thesis
    by (simp add: computeMetrics_def and_then_def split: sum.splits)
qed

section \<open>The error-to-score transform\<close>

lemma js_le_not_NaN: "js_le a b \<Longrightarrow> a \<noteq> NaN \<and> b \<noteq> NaN"
  by (cases a; cases b) simp_all

lemma js_le_refl: "a \<noteq> NaN \<Longrightarrow> js_le a a"
  by (cases a) simp_all

lemma js_le_trans: "js_le a b \<Longrightarrow> js_le b c \<Longrightarrow> js_le a c"
  by (cases a; cases b; cases c) simp_all

lemma clamp_NaN: "clamp NaN (Num 0) (Num 100) = NaN"
  by (simp add: clamp_def)

lemma clamp_in_range: "v \<noteq> NaN \<Longrightarrow> in_range (clamp v (Num 0) (Num 100)) 0 100"
  by (cases v) (simp_all add: clamp_def in_range_def)

lemma clamp_mono: "js_le a b \<Longrightarrow> js_le (clamp a (Num 0) (Num 100)) (clamp b (Num 0) (Num 100))"
  by (cases a; cases b) (simp_all add: clamp_def)

lemma square_not_NaN: "e \<noteq> NaN \<Longrightarrow> e * e \<noteq> NaN"
  by (cases e) (simp_all add: round64_not_NaN)

lemma uminus_not_NaN: "(e::jsnum) \<noteq> NaN \<Longrightarrow> - e \<noteq> NaN"
  by (cases e) simp_all

lemma div_pos_not_NaN: "e \<noteq> NaN \<Longrightarrow> d \<noteq> 0 \<Longrightarrow> e / Num d \<noteq> NaN"
  by (cases e) (simp_all add: round64_not_NaN)

lemma times100_not_NaN: "e \<noteq> NaN \<Longrightarrow> Num 100 * e \<noteq> NaN"
  by (cases e) (simp_all add: round64_not_NaN)

lemma Math_exp_not_NaN: "exp_ok M \<Longrightarrow> e \<noteq> NaN \<Longrightarrow> Math_exp M e \<noteq> NaN"
proof (cases e)
  case (Num a)
  assume "exp_ok M"
  then have "js_le (Num 0) (Math_exp M (Num a))" by (simp add: exp_ok_def)
  then show ?thesis using Num js_le_not_NaN by blast
qed simp_all

lemma score_in_range:
  assumes "exp_ok M" "tol_ok t" "e \<noteq> NaN"
  shows "in_range (scoreFromError M e t) 0 100"
proof -
  from assms(2) obtain d where d: "Num 2 * t * t = Num d" "0 < d" by (auto simp add: tol_ok_def)
  have "- (e * e) / Num d \<noteq> NaN"
    using assms(3) d(2) by (intro div_pos_not_NaN uminus_not_NaN square_not_NaN) simp_all
  then have "Num 100 * Math_exp M (- (e * e) / Num d) \<noteq> NaN"
    using assms(1) by (intro times100_not_NaN Math_exp_not_NaN)
  then show ?thesis
    unfolding scoreFromError_def d(1) by (rule clamp_in_range)
qed

lemma score_NaN_or_in_range:
  "scoreFromError M e t = NaN \<or> in_range (scoreFromError M e t) 0 100"
  unfolding scoreFromError_def
  using clamp_in_range clamp_NaN by metis

lemma round64_100: "round64 100 = Num 100"
  using round64_dyadic [of 100 0] by simp

lemma round64_0: "round64 0 = Num 0"
  by (simp add: round64_def)

text \<open>A zero error scores 100 whenever the divisor is a non-zero number.\<close>

lemma score_zero:
  assumes "Num 2 * t * t = Num d" "d \<noteq> 0"
  shows "scoreFromError M (Num 0) t = Num 100"
proof -
  have "- (Num 0 * Num 0) / (Num 2 * t * t) = Num 0"
    unfolding assms(1) using assms(2) by (simp add: round64_0)
  then show ?thesis
    by (simp add: scoreFromError_def clamp_def round64_100)
qed

lemma lit_between:
  assumes "2 powi a \<le> r" "r \<le> 2 powi b" "- 1074 \<le> a" "b \<le> 1023" "a \<le> b"
  shows "\<exists>v. lit r = Num v \<and> 2 powi a \<le> v \<and> v \<le> 2 powi b"
  unfolding lit_def using assms
  by (intro round64_between is_double_pow2) simp_all

lemma tol_ok_lit:
  assumes "2 powi (- 5) \<le> r" "r \<le> 2 powi (- 2)"
  shows "tol_ok (lit r)"
proof -
  from lit_between [OF assms] obtain v where v: "lit r = Num v" "2 powi (- 5) \<le> v" "v \<le> 2 powi (- 2)"
    by auto
  have v0: "0 < v" using v(2) by (simp add: less_le_trans [of 0 "1 / 32"])
  have dbl: "is_double (2 powi (- 4))" "is_double (2 powi (- 1))"
    "is_double (2 powi (- 9))" "is_double (2 powi (- 3))"
    by (rule is_double_pow2; simp)+
  have "2 powi (- 4) \<le> 2 * v" "2 * v \<le> 2 powi (- 1)"
    using v(2,3) by simp_all
  from round64_between [OF dbl(1,2) this]
  obtain u where u: "round64 (2 * v) = Num u" "2 powi (- 4) \<le> u" "u \<le> 2 powi (- 1)"
    by blast
  have "2 powi (- 9) \<le> u * v" "u * v \<le> 2 powi (- 3)"
  proof -
    have "(1 / 16) * (1 / 32) \<le> u * v"
      using u(2) v(2) by (intro mult_mono) simp_all
    then show "2 powi (- 9) \<le> u * v" by simp
    have "u * v \<le> (1 / 2) * (1 / 4)"
      using u(2,3) v(2,3) v0 by (intro mult_mono) simp_all
    then show "u * v \<le> 2 powi (- 3)" by simp
  qed
  from round64_between [OF dbl(3,4) this]
  obtain d where d: "round64 (u * v) = Num d" "2 powi (- 9) \<le> d"
    by blast
  have "0 < d" using d(2) by (simp add: less_le_trans [of 0 "1 / 512"])
  then show ?thesis
    by (auto simp add: tol_ok_def v(1) u(1) d(1))
qed

lemma tolerances_ok: "tol_ok (lit 0.04)" "tol_ok (lit 0.15)" "tol_ok (lit 0.18)" "tol_ok (lit 0.25)"
  by (rule tol_ok_lit; simp)+

lemma epsilon_val: "\<exists>e. epsilon = Num e \<and> 0 < e \<and> e \<le> 2 powi (- 19)"
proof -
  have "\<exists>v. lit (1 / 10 ^ 6) = Num v \<and> 2 powi (- 20) \<le> v \<and> v \<le> 2 powi (- 19)"
    by (rule lit_between) simp_all
  then obtain v where "lit (1 / 10 ^ 6) = Num v" "2 powi (- 20) \<le> v" "v \<le> 2 powi (- 19)" by auto
  moreover from this have "0 < v" by (simp add: less_le_trans [of 0 "1 / 1048576"])
  ultimately show ?thesis by (auto simp add: epsilon_def)
qed

lemma golden_val: "\<exists>g. lit 1.618 = Num g \<and> 1 \<le> g \<and> g \<le> 2"
  using lit_between [of 0 "1.618" 1] by simp

subsection \<open>Monotonicity\<close>

lemma square_mono:
  assumes "\<bar>a\<bar> \<le> \<bar>b\<bar>"
  shows "js_le (Num a * Num a) (Num b * Num b)"
proof -
  have "a * a \<le> b * b"
    using assms by (metis abs_le_square_iff power2_eq_square)
  then show ?thesis by (simp add: round64_mono)
qed

lemma js_le_PosInf: "v \<noteq> NaN \<Longrightarrow> js_le v PosInf"
  by (cases v) simp_all

lemma js_le_NegInf: "v \<noteq> NaN \<Longrightarrow> js_le NegInf v"
  by (cases v) simp_all

lemma div_pos_mono:
  assumes "js_le a b" "0 < d"
  shows "js_le (a / Num d) (b / Num d)"
proof -
  have "js_le (round64 (x / d)) (round64 (y / d))" if "x \<le> y" for x y
    using that assms(2) by (intro round64_mono divide_right_mono) simp_all
  then show ?thesis
    using assms by (cases a; cases b)
      (auto simp add: js_le_PosInf js_le_NegInf round64_not_NaN)
qed

lemma Math_exp_mono:
  assumes "exp_ok M" "js_le a b"
  shows "js_le (Math_exp M a) (Math_exp M b)"
proof -
  have pos: "js_le (Num 0) (Math_exp M (Num x))" for x
    using assms(1) by (simp add: exp_ok_def)
  have mono: "js_le (Math_exp M (Num x)) (Math_exp M (Num y))" if "x \<le> y" for x y
    using assms(1) that by (simp add: exp_ok_def)
  have top: "js_le (Math_exp M (Num x)) PosInf" for x
    using pos [of x] js_le_not_NaN by (intro js_le_PosInf) blast
  show ?thesis
  proof (cases a)
    case a: (Num x)
    show ?thesis
    proof (cases b)
      case (Num y)
      with a assms(2) have "x \<le> y" by simp
      then show ?thesis unfolding a Num by (rule mono)
    next
      case PosInf
      show ?thesis unfolding a PosInf Math_exp.simps(2) by (rule top)
    qed (use a assms(2) in simp_all)
  next
    case PosInf
    then show ?thesis using assms(2) by (cases b) simp_all
  next
    case a: NegInf
    show ?thesis
    proof (cases b)
      case (Num y)
      show ?thesis unfolding a Num Math_exp.simps(3) by (rule pos)
    qed (use a assms(2) in simp_all)
  next
    case NaN
    then show ?thesis using assms(2) by simp
  qed
qed

lemma times100_mono:
  assumes "js_le a b" "js_le (Num 0) a"
  shows "js_le (Num 100 * a) (Num 100 * b)"
proof -
  have "js_le (round64 (100 * x)) (round64 (100 * y))" if "x \<le> y" for x y :: real
    using that by (intro round64_mono) simp
  then show ?thesis
    using assms by (cases a; cases b) (auto simp add: js_le_PosInf round64_not_NaN)
qed

lemma score_mono:
  assumes "exp_ok M" "Num 2 * t * t = Num d" "0 < d" "\<bar>e1\<bar> \<le> \<bar>e2\<bar>"
  shows "js_le (scoreFromError M (Num e2) t) (scoreFromError M (Num e1) t)"
proof -
  have "js_le (Num e1 * Num e1) (Num e2 * Num e2)" using assms(4) by (rule square_mono)
  then have "js_le (- (Num e2 * Num e2)) (- (Num e1 * Num e1))" by (rule js_le_uminus)
  then have arg: "js_le (- (Num e2 * Num e2) / Num d) (- (Num e1 * Num e1) / Num d)"
    using assms(3) by (rule div_pos_mono)
  then have ex: "js_le (Math_exp M (- (Num e2 * Num e2) / Num d)) (Math_exp M (- (Num e1 * Num e1) / Num d))"
    using assms(1) by (intro Math_exp_mono)
  have "js_le (Math_exp M NegInf) (Math_exp M (- (Num e2 * Num e2) / Num d))"
    using assms(1) arg js_le_not_NaN by (intro Math_exp_mono js_le_NegInf) blast+
  then have "js_le (Num 0) (Math_exp M (- (Num e2 * Num e2) / Num d))"
    by simp
  with ex have "js_le (Num 100 * Math_exp M (- (Num e2 * Num e2) / Num d))
      (Num 100 * Math_exp M (- (Num e1 * Num e1) / Num d))"
    by (rule times100_mono)
  then show ?thesis
    unfolding scoreFromError_def assms(2) by (rule clamp_mono)
qed




section \<open>The sample inputs\<close>

lemma length_landmarks_of: "length (landmarks_of ps) = 468"
  by (simp add: landmarks_of_def)

lemma nth_landmarks_of:
  "i < 468 \<Longrightarrow>
   landmarks_of ps ! i = (case map_of ps i of Some p \<Rightarrow> \<lparr>px = fst p, py = snd p\<rparr>
                                           | None \<Rightarrow> \<lparr>px = 0, py = 0\<rparr>)"
  by (simp add: landmarks_of_def)

lemma NaN_propagates:
  "NaN - a = NaN" "\<bar>NaN :: jsnum\<bar> = NaN" "NaN / a = NaN"
  by (simp_all add: minus_jsnum_def)

lemma score_NaN: "scoreFromError M NaN t = NaN"
  by (simp add: scoreFromError_def clamp_def)


lemma blown_eyes: "eyeGapRatio_js M blown_eyes_face = NaN" "faceWidth_js M blown_eyes_face = Num 0"
proof -
  have "eyeW_js M blown_eyes_face = PosInf"
    by (simp add: eyeW_js_def dist_def pt_def LM_defs blown_eyes_face_def nth_landmarks_of
        minus_jsnum_def round64_0 round64_uminus round64_overflow)
  moreover have "innerGap_js M blown_eyes_face = PosInf"
    by (simp add: innerGap_js_def dist_def pt_def LM_defs blown_eyes_face_def nth_landmarks_of
        minus_jsnum_def round64_0 round64_uminus round64_overflow)
  ultimately show "eyeGapRatio_js M blown_eyes_face = NaN"
    by (simp add: eyeGapRatio_js_def)
  show "faceWidth_js M blown_eyes_face = Num 0"
    by (simp add: faceWidth_js_def dist_def pt_def LM_defs blown_eyes_face_def nth_landmarks_of
        minus_jsnum_def round64_0)
qed

section \<open>The correctly rounded implementation\<close>

lemma exp_ok_correctly_rounded: "exp_ok correctly_rounded"
proof -
  have e: "Math_exp correctly_rounded (Num a) = round64 (exp a)" for a
    using round64_dyadic [of 1 0] by (simp add: correctly_rounded_def)
  have "js_le (round64 0) (round64 (exp a))" for a
    by (rule round64_mono) simp
  moreover have "js_le (round64 (exp a)) (round64 (exp b))" if "a \<le> b" for a b
    using that by (intro round64_mono) simp
  ultimately show ?thesis
    unfolding exp_ok_def e by (simp add: round64_0)
qed

lemma hypot_ok_correctly_rounded: "hypot_ok correctly_rounded"
  unfolding hypot_ok_def
proof (intro allI impI)
  fix a b :: real and k :: int
  assume h: "\<bar>a\<bar> \<le> 2 powi k \<and> \<bar>b\<bar> \<le> 2 powi k \<and> - 1074 \<le> k \<and> k \<le> 1022"
  have "sqrt (a * a + b * b) \<le> \<bar>a\<bar> + \<bar>b\<bar>"
    using sqrt_sum_squares_le_sum_abs [of a b] by (simp add: power2_eq_square)
  also have "\<dots> \<le> 2 powi (k + 1)"
    using h pow2_double [of k] by linarith
  finally have "sqrt (a * a + b * b) \<le> 2 powi (k + 1)" .
  then have "nn (k + 1) (round64 (sqrt (a * a + b * b)))"
    using h by (intro round64_nn) simp_all
  then show "nn (k + 1) (hypot_impl correctly_rounded a b)"
    by (simp add: correctly_rounded_def)
qed

lemma hypot_axis_correctly_rounded: "hypot_axis correctly_rounded"
  unfolding hypot_axis_def
proof (intro allI impI)
  fix r :: real
  assume "is_double r"
  then have "round64 \<bar>r\<bar> = Num \<bar>r\<bar>"
    by (simp add: is_double_abs is_double_def [symmetric])
  then show "hypot_impl correctly_rounded r 0 = Num \<bar>r\<bar> \<and> hypot_impl correctly_rounded 0 r = Num \<bar>r\<bar>"
    by (simp add: correctly_rounded_def)
qed

subsection \<open>Roundings of the examples\<close>

lemma round64_of_int: "\<bar>m\<bar> < 2 ^ 53 \<Longrightarrow> round64 (of_int m) = Num (of_int m)"
proof -
  assume m: "\<bar>m\<bar> < 2 ^ 53"
  then have "\<bar>of_int m :: real\<bar> < of_int (2 ^ 53)"
    by (simp only: of_int_abs [symmetric] of_int_less_iff)
  then have "\<bar>of_int m * 2 powi 0\<bar> < (2::real) ^ 1024" by simp
  with m round64_dyadic [of m 0] show ?thesis by simp
qed

lemma round64_numeral:
  "(numeral n :: int) < 2 ^ 53 \<Longrightarrow> round64 (numeral n) = Num (numeral n)"
  "(numeral n :: int) < 2 ^ 53 \<Longrightarrow> round64 (- numeral n) = Num (- numeral n)"
  "round64 1 = Num 1"
  using round64_of_int [of "numeral n"] round64_of_int [of "- numeral n"] round64_of_int [of 1]
  by simp_all

lemma ev_lit_1_4: "round64 (7 / 5) = Num (3152519739159347 / 2251799813685248)"
proof -
  have r: "round_half_even ((7 / 5) / 2 powi (0 - 52)) = 6305039478318694"
    by (rule rhe_near) simp_all
  show ?thesis
    using round64_eval [of "7 / 5" 0 6305039478318694, OF _ _ _ _ r] by simp
qed


















lemma Math_hypot_axis:
  assumes "hypot_axis M" "is_double r"
  shows "Math_hypot M (Num r) (Num 0) = Num \<bar>r\<bar>" "Math_hypot M (Num 0) (Num r) = Num \<bar>r\<bar>"
  using assms by (auto simp add: hypot_axis_def)

lemma hypot_correctly_rounded_axis:
  "hypot_impl correctly_rounded r 0 = round64 \<bar>r\<bar>"
  "hypot_impl correctly_rounded 0 r = round64 \<bar>r\<bar>"
  by (simp_all add: correctly_rounded_def)

lemmas quantity_defs =
  faceWidth_js_def faceLength_js_def midlineX_js_def mirrored_def symmetry_pairs_def
  symmetryErr_js_def eyeW_js_def innerGap_js_def symmetryNorm_js_def lw_js_def fifths_js_def
  eyeGapRatio_js_def dist_def pt_def LM_defs minus_jsnum_def meanPoint_def


section \<open>Sums that round nothing\<close>

lemma foldl_exact:
  "sums_exact a xs \<Longrightarrow> foldl (+) (Num a) (map Num xs) = Num (a + sum_list xs)"
  by (induction xs arbitrary: a) (simp_all add: is_double_def add.assoc)

lemma foldl_pts_fst:
  "fst (foldl (\<lambda>acc p. (fst acc + fst p, snd acc + snd p)) (a, b) ps) = foldl (+) a (map fst ps)"
  "snd (foldl (\<lambda>acc p. (fst acc + fst p, snd acc + snd p)) (a, b) ps) = foldl (+) b (map snd ps)"
  by (induction ps arbitrary: a b) simp_all

lemma meanPoint_exact:
  assumes "rs \<noteq> []" "sums_exact 0 (map fst rs)" "sums_exact 0 (map snd rs)"
  shows "meanPoint (map finite_pt rs)
    = (round64 (sum_list (map fst rs) / real (length rs)),
       round64 (sum_list (map snd rs) / real (length rs)))"
proof -
  have f: "map fst (map finite_pt rs) = map Num (map fst rs)"
    "map snd (map finite_pt rs) = map Num (map snd rs)"
    by (simp_all add: finite_pt_def comp_def)
  show ?thesis
    using assms(1)
    by (simp add: meanPoint_def Let_def prod_eq_iff foldl_pts_fst f
        foldl_exact [OF assms(2)] foldl_exact [OF assms(3)] del: map_map)
qed




lemma is_double_numeral:
  "(numeral n :: int) < 2 ^ 53 \<Longrightarrow> is_double (numeral n)"
  "is_double 0" "is_double 1"
  by (simp_all add: is_double_def round64_numeral round64_0)

lemma foldl_zeros: "\<forall>x\<in>set xs. x = 0 \<Longrightarrow> foldl (+) (Num 0) (map Num xs) = Num 0"
  by (induction xs) (simp_all add: round64_0)

lemma dist_horizontal:
  assumes "hypot_axis M"
  shows "dist M (Num a, Num c) (Num b, Num c) = \<bar>Num a - Num b\<bar>"
proof (cases "round64 (a - b)")
  case (Num r)
  then have "is_double r" by (rule is_double_round)
  with assms have "hypot_impl M r 0 = Num \<bar>r\<bar>" by (simp add: hypot_axis_def)
  then show ?thesis using Num by (simp add: dist_def minus_jsnum_def round64_0)
qed (simp_all add: dist_def minus_jsnum_def round64_0 round64_not_NaN)

section \<open>Bounded landmark sets\<close>

lemma nn_nonneg: "nn k v \<Longrightarrow> nonneg_num v"
  by (cases v) (simp_all add: nn_def nonneg_num_def)

lemma pos_nonneg: "pos_num v \<Longrightarrow> nonneg_num v"
  by (cases v) (simp_all add: pos_num_def nonneg_num_def)

lemma js_or_pos:
  assumes "nonneg_num v"
  shows "pos_num (js_or v epsilon)"
proof -
  from epsilon_val obtain e where e: "epsilon = Num e" "0 < e" by auto
  have "pos_num epsilon" unfolding e(1) using e(2) by (simp add: pos_num_def)
  with assms show ?thesis by (cases v) (auto simp add: nonneg_num_def pos_num_def)
qed

lemma div_not_NaN: "nonneg_num a \<Longrightarrow> pos_num b \<Longrightarrow> a / b \<noteq> NaN"
  by (cases a; cases b) (simp_all add: nonneg_num_def pos_num_def round64_not_NaN)

lemma abs_sub_not_NaN: "a \<noteq> NaN \<Longrightarrow> \<bar>a - Num b\<bar> \<noteq> NaN"
proof (cases a)
  case (Num x)
  then show ?thesis
    using round64_not_NaN [of "x - b"]
    by (cases "round64 (x - b)") (simp_all add: minus_jsnum_def)
qed (simp_all add: minus_jsnum_def)

lemma bounded_pt:
  assumes "bounded_landmarks lm" "i \<in> set used_indices"
  shows "fin 1000 (Num (px (lm ! i)))" "fin 1000 (Num (py (lm ! i)))"
  using assms by (auto simp add: bounded_landmarks_def list_all_iff fin_Num)

lemma foldl_fin:
  "fin k acc \<Longrightarrow> \<forall>x\<in>set xs. fin k x \<Longrightarrow> - 1075 \<le> k \<Longrightarrow> k + int (length xs) \<le> 1023 \<Longrightarrow>
   fin (k + int (length xs)) (foldl (+) acc xs)"
proof (induction xs arbitrary: acc k)
  case Nil
  then show ?case by simp
next
  case (Cons x xs)
  have "fin (k + 1) (acc + x)"
    using Cons.prems by (intro fin_add) simp_all
  moreover have "\<forall>y\<in>set xs. fin (k + 1) y"
    using Cons.prems(2) fin_mono [of k _ "k + 1"] by simp
  ultimately have "fin (k + 1 + int (length xs)) (foldl (+) (acc + x) xs)"
    using Cons.prems(3,4) by (intro Cons.IH) simp_all
  then show ?case by (simp add: algebra_simps)
qed

lemma foldl_nn:
  "nn k acc \<Longrightarrow> \<forall>x\<in>set xs. nn k x \<Longrightarrow> - 1075 \<le> k \<Longrightarrow> k + int (length xs) \<le> 1023 \<Longrightarrow>
   nn (k + int (length xs)) (foldl (+) acc xs)"
proof (induction xs arbitrary: acc k)
  case Nil
  then show ?case by simp
next
  case (Cons x xs)
  have "nn (k + 1) (acc + x)"
    using Cons.prems by (intro nn_add) simp_all
  moreover have "\<forall>y\<in>set xs. nn (k + 1) y"
    using Cons.prems(2) nn_mono [of k _ "k + 1"] by simp
  ultimately have "nn (k + 1 + int (length xs)) (foldl (+) (acc + x) xs)"
    using Cons.prems(3,4) by (intro Cons.IH) simp_all
  then show ?case by (simp add: algebra_simps)
qed

lemma fin_0: "fin k (Num 0)" and nn_0: "nn k (Num 0)"
  by (simp_all add: fin_Num nn_Num zero_less_power_int less_imp_le)

lemma meanPoint_fin:
  assumes "\<forall>p\<in>set ps. fin k (fst p) \<and> fin k (snd p)" "ps \<noteq> []" "- 1074 \<le> k"
    "k + int (length ps) \<le> 1023"
  shows "fin (k + int (length ps)) (fst (meanPoint ps))"
    "fin (k + int (length ps)) (snd (meanPoint ps))"
proof -
  have n: "1 \<le> real (length ps)"
    using assms(2) by (cases ps) simp_all
  have "fin (k + int (length (map fst ps))) (foldl (+) (Num 0) (map fst ps))"
    using assms by (intro foldl_fin fin_0) simp_all
  then show "fin (k + int (length ps)) (fst (meanPoint ps))"
    using n assms(3,4) by (simp add: meanPoint_def Let_def foldl_pts_fst fin_div)
  have "fin (k + int (length (map snd ps))) (foldl (+) (Num 0) (map snd ps))"
    using assms by (intro foldl_fin fin_0) simp_all
  then show "fin (k + int (length ps)) (snd (meanPoint ps))"
    using n assms(3,4) by (simp add: meanPoint_def Let_def foldl_pts_fst fin_div)
qed

lemma dist_nn:
  assumes "hypot_ok M" "fin k (fst a)" "fin k (snd a)" "fin k (fst b)" "fin k (snd b)"
    "- 1075 \<le> k" "k \<le> 1021"
  shows "nn (k + 2) (dist M a b)"
proof -
  have "fin (k + 1) (fst a - fst b)" using assms by (intro fin_sub) simp_all
  then obtain u where u: "fst a - fst b = Num u" "\<bar>u\<bar> \<le> 2 powi (k + 1)" by (rule finE)
  have "fin (k + 1) (snd a - snd b)" using assms by (intro fin_sub) simp_all
  then obtain v where v: "snd a - snd b = Num v" "\<bar>v\<bar> \<le> 2 powi (k + 1)" by (rule finE)
  from assms(1) have "\<bar>u\<bar> \<le> 2 powi (k + 1) \<and> \<bar>v\<bar> \<le> 2 powi (k + 1) \<and> - 1074 \<le> k + 1 \<and> k + 1 \<le> 1022
      \<longrightarrow> nn (k + 1 + 1) (hypot_impl M u v)"
    unfolding hypot_ok_def by blast
  then have "nn (k + 1 + 1) (hypot_impl M u v)"
    using assms(6,7) u(2) v(2) by simp
  then show ?thesis
    by (simp add: dist_def u v nn_0 add.assoc)
qed

lemma midline_fin:
  assumes "bounded_landmarks lm"
  shows "fin 1007 (midlineX_js lm)"
proof -
  have l: "\<forall>p\<in>set (map (pt lm) LM_leftEye). fin 1000 (fst p) \<and> fin 1000 (snd p)"
    using bounded_pt [OF assms] by (simp add: pt_def used_indices_def)
  have r: "\<forall>p\<in>set (map (pt lm) LM_rightEye). fin 1000 (fst p) \<and> fin 1000 (snd p)"
    using bounded_pt [OF assms] by (simp add: pt_def used_indices_def)
  have "fin (1000 + int (length (map (pt lm) LM_leftEye))) (fst (meanPoint (map (pt lm) LM_leftEye)))"
    using l by (rule meanPoint_fin) (simp_all add: LM_leftEye_def)
  then have a: "fin 1006 (fst (meanPoint (map (pt lm) LM_leftEye)))"
    by (simp add: LM_leftEye_def)
  have "fin (1000 + int (length (map (pt lm) LM_rightEye))) (fst (meanPoint (map (pt lm) LM_rightEye)))"
    using r by (rule meanPoint_fin) (simp_all add: LM_rightEye_def)
  then have b: "fin 1006 (fst (meanPoint (map (pt lm) LM_rightEye)))"
    by (simp add: LM_rightEye_def)
  have "fin (1006 + 1) (fst (meanPoint (map (pt lm) LM_leftEye)) + fst (meanPoint (map (pt lm) LM_rightEye)))"
    using a b by (rule fin_add) simp_all
  then show ?thesis
    unfolding midlineX_js_def by (intro fin_div) simp_all
qed

lemma mirrored_fin:
  assumes "bounded_landmarks lm" "i \<in> set used_indices"
  shows "fin 1009 (fst (mirrored lm i))" "fin 1009 (snd (mirrored lm i))"
proof -
  have "fin (1007 + 1) (Num 2 * midlineX_js lm)"
    using midline_fin [OF assms(1)] by (rule fin_twice) simp_all
  moreover have "fin 1008 (Num (px (lm ! i)))"
    using bounded_pt(1) [OF assms] by (rule fin_mono) simp
  ultimately have "fin (1008 + 1) (Num 2 * midlineX_js lm - Num (px (lm ! i)))"
    by (intro fin_sub) simp_all
  then show "fin 1009 (fst (mirrored lm i))" by (simp add: mirrored_def)
  show "fin 1009 (snd (mirrored lm i))"
    using bounded_pt(2) [OF assms] fin_mono [of 1000 _ 1009] by (simp add: mirrored_def)
qed

lemma pt_fin:
  assumes "bounded_landmarks lm" "i \<in> set used_indices"
  shows "fin 1000 (fst (pt lm i))" "fin 1000 (snd (pt lm i))"
  using bounded_pt [OF assms] by (simp_all add: pt_def)

lemma used:
  "LM_leftOuter \<in> set used_indices" "LM_leftInner \<in> set used_indices"
  "LM_rightOuter \<in> set used_indices" "LM_rightInner \<in> set used_indices"
  "LM_browLeftMid \<in> set used_indices" "LM_browRightMid \<in> set used_indices"
  "LM_noseLeft \<in> set used_indices" "LM_noseRight \<in> set used_indices"
  "LM_faceLeft \<in> set used_indices" "LM_faceRight \<in> set used_indices"
  "LM_noseBridgeTop \<in> set used_indices" "LM_chin \<in> set used_indices"
  by (simp_all add: used_indices_def LM_defs)

lemma quantities_nonneg:
  assumes "hypot_ok M" "bounded_landmarks lm"
  shows "nonneg_num (faceWidth_js M lm)" "nonneg_num (faceLength_js M lm)"
    "nonneg_num (eyeW_js M lm)" "nonneg_num (innerGap_js M lm)" "nonneg_num (symmetryErr_js M lm)"
proof -
  note p = pt_fin [OF assms(2)] and b = bounded_pt [OF assms(2)]
  have "nn (1000 + 2) (faceWidth_js M lm)"
    unfolding faceWidth_js_def using assms(1) by (rule dist_nn) (simp_all add: p used)
  then show "nonneg_num (faceWidth_js M lm)" by (rule nn_nonneg)
  have "nn (1000 + 2) (dist M (pt lm LM_noseBridgeTop) (pt lm LM_chin))"
    using assms(1) by (rule dist_nn) (simp_all add: p used)
  then obtain d where d: "dist M (pt lm LM_noseBridgeTop) (pt lm LM_chin) = Num d" "0 \<le> d"
    "d \<le> 2 powi 1002" by (rule nnE) simp
  obtain v where v: "lit 1.4 = Num v" "1 \<le> v" "v \<le> 2"
    using lit_between [of 0 "1.4" 1] by auto
  have "d * v \<le> 2 powi 1002 * 2" using d(2,3) v(2,3) by (intro mult_mono) simp_all
  then have "nn 1003 (round64 (d * v))"
    using d(2) v(2) by (intro round64_nn) simp_all
  then have "nn 1003 (faceLength_js M lm)"
    unfolding faceLength_js_def d v by simp
  then show "nonneg_num (faceLength_js M lm)" by (rule nn_nonneg)
  have l: "nn (1000 + 2) (dist M (Num (px (lm ! LM_leftOuter)), Num (py (lm ! LM_leftInner))) (pt lm LM_leftInner))"
    using assms(1) by (rule dist_nn) (simp_all add: p b used)
  have r: "nn (1000 + 2) (dist M (Num (px (lm ! LM_rightInner)), Num (py (lm ! LM_rightOuter))) (pt lm LM_rightOuter))"
    using assms(1) by (rule dist_nn) (simp_all add: p b used)
  have "nn (1000 + 2 + 1) (dist M (Num (px (lm ! LM_leftOuter)), Num (py (lm ! LM_leftInner))) (pt lm LM_leftInner)
      + dist M (Num (px (lm ! LM_rightInner)), Num (py (lm ! LM_rightOuter))) (pt lm LM_rightOuter))"
    using l r by (rule nn_add) simp_all
  then have "nn (1000 + 2 + 1) (eyeW_js M lm)"
    unfolding eyeW_js_def by (rule nn_div) simp_all
  then show "nonneg_num (eyeW_js M lm)" by (rule nn_nonneg)
  have "nn (1000 + 2) (innerGap_js M lm)"
    unfolding innerGap_js_def using assms(1) by (rule dist_nn) (simp_all add: p used)
  then show "nonneg_num (innerGap_js M lm)" by (rule nn_nonneg)
  have each: "\<forall>x\<in>set (map (\<lambda>lr. dist M (pt lm (fst lr)) (mirrored lm (snd lr))) symmetry_pairs).
      nn 1011 x"
  proof -
    have "nn (1009 + 2) (dist M (pt lm i) (mirrored lm j))"
      if "i \<in> set used_indices" "j \<in> set used_indices" for i j
      using assms(1)
    proof (rule dist_nn)
      show "fin 1009 (fst (pt lm i))" "fin 1009 (snd (pt lm i))"
        using p [OF that(1)] fin_mono [of 1000 _ 1009] by simp_all
      show "fin 1009 (fst (mirrored lm j))" "fin 1009 (snd (mirrored lm j))"
        using mirrored_fin [OF assms(2) that(2)] by simp_all
    qed simp_all
    then show ?thesis by (simp add: symmetry_pairs_def used)
  qed
  have "nn (1011 + int (length (map (\<lambda>lr. dist M (pt lm (fst lr)) (mirrored lm (snd lr))) symmetry_pairs)))
      (foldl (+) (Num 0) (map (\<lambda>lr. dist M (pt lm (fst lr)) (mirrored lm (snd lr))) symmetry_pairs))"
    using nn_0 each by (rule foldl_nn) (simp_all add: symmetry_pairs_def)
  then have "nn (1011 + 4) (symmetryErr_js M lm)"
    unfolding symmetryErr_js_def by (intro nn_div) (simp_all add: symmetry_pairs_def)
  then show "nonneg_num (symmetryErr_js M lm)" by (rule nn_nonneg)
qed

lemma errors_not_NaN:
  assumes "hypot_ok M" "bounded_landmarks lm"
  shows "symmetryNorm_js M lm \<noteq> NaN"
    "\<bar>lw_js M lm - lit 1.618\<bar> / lit 1.618 \<noteq> NaN"
    "\<bar>fifths_js M lm - Num 5\<bar> / Num 5 \<noteq> NaN"
    "\<bar>eyeGapRatio_js M lm - Num 1\<bar> \<noteq> NaN"
proof -
  note q = quantities_nonneg [OF assms]
  obtain g where g: "lit 1.618 = Num g" "1 \<le> g" using golden_val by auto
  show "symmetryNorm_js M lm \<noteq> NaN"
    unfolding symmetryNorm_js_def by (intro div_not_NaN js_or_pos q)
  have "lw_js M lm \<noteq> NaN"
    unfolding lw_js_def by (intro div_not_NaN js_or_pos q)
  then have "\<bar>lw_js M lm - Num g\<bar> \<noteq> NaN" by (rule abs_sub_not_NaN)
  then show "\<bar>lw_js M lm - lit 1.618\<bar> / lit 1.618 \<noteq> NaN"
    unfolding g using g(2) by (intro div_pos_not_NaN) simp_all
  have "fifths_js M lm \<noteq> NaN"
    unfolding fifths_js_def by (intro div_not_NaN js_or_pos pos_nonneg q)
  then have "\<bar>fifths_js M lm - Num 5\<bar> \<noteq> NaN" by (rule abs_sub_not_NaN)
  then show "\<bar>fifths_js M lm - Num 5\<bar> / Num 5 \<noteq> NaN"
    by (intro div_pos_not_NaN) simp_all
  have "eyeGapRatio_js M lm \<noteq> NaN"
    unfolding eyeGapRatio_js_def by (intro div_not_NaN js_or_pos q)
  then show "\<bar>eyeGapRatio_js M lm - Num 1\<bar> \<noteq> NaN" by (rule abs_sub_not_NaN)
qed

lemma metrics_in_range:
  assumes "454 < length lm" "bounded_landmarks lm" "hypot_ok M" "exp_ok M"
  shows "\<exists>m. computeMetrics M lm = Inr m
    \<and> in_range (symmetryScore m) 0 100 \<and> in_range (goldenScore m) 0 100
    \<and> in_range (fifthsScore m) 0 100 \<and> in_range (eyeGapScore m) 0 100"
  using errors_not_NaN [OF assms(3,2)] tolerances_ok assms(4)
  by (simp add: computeMetrics_eq [OF assms(1)] score_in_range)

subsection \<open>The aggregate\<close>



section \<open>The examples, evaluated\<close>









lemma ev_eps: "round64 (1 / 1000000) = Num (4722366482869645 / 4722366482869645213696)"
proof -
  have r: "round_half_even ((1 / 1000000) / 2 powi (-20 - 52)) = 4722366482869645"
    by (rule rhe_near) simp_all
  show ?thesis
    using round64_eval [of "1 / 1000000" "- 20" 4722366482869645, OF _ _ _ _ r] by simp
qed

lemma ev_eps20: "round64 (944473296573929 / 18889465931478580854784) = Num (944473296573929 / 18889465931478580854784)"
proof -
  have r: "round_half_even ((944473296573929 / 18889465931478580854784) / 2 powi (-25 - 52)) = 7555786372591432"
    by (rule rhe_near) simp_all
  show ?thesis
    using round64_eval [of "944473296573929 / 18889465931478580854784" "- 25" 7555786372591432, OF _ _ _ _ r] by simp
qed

lemma ev_t30: "round64 (1 / 1073741824) = Num (1 / 1073741824)"
proof -
  have r: "round_half_even ((1 / 1073741824) / 2 powi (-30 - 52)) = 4503599627370496"
    by (rule rhe_near) simp_all
  show ?thesis
    using round64_eval [of "1 / 1073741824" "- 30" 4503599627370496, OF _ _ _ _ r] by simp
qed

lemma ev_lw_tiny: "round64 (3152519739159347 / 2097152) = Num (3152519739159347 / 2097152)"
proof -
  have r: "round_half_even ((3152519739159347 / 2097152) / 2 powi (30 - 52)) = 6305039478318694"
    by (rule rhe_near) simp_all
  show ?thesis
    using round64_eval [of "3152519739159347 / 2097152" 30 6305039478318694, OF _ _ _ _ r] by simp
qed

lemma ev_1_4: "round64 (1 / 4) = Num (1 / 4)"
proof -
  have r: "round_half_even ((1 / 4) / 2 powi (-2 - 52)) = 4503599627370496"
    by (rule rhe_near) simp_all
  show ?thesis
    using round64_eval [of "1 / 4" "- 2" 4503599627370496, OF _ _ _ _ r] by simp
qed

lemma ev_1_8: "round64 (1 / 8) = Num (1 / 8)"
proof -
  have r: "round_half_even ((1 / 8) / 2 powi (-3 - 52)) = 4503599627370496"
    by (rule rhe_near) simp_all
  show ?thesis
    using round64_eval [of "1 / 8" "- 3" 4503599627370496, OF _ _ _ _ r] by simp
qed

lemma ev_1_16: "round64 (1 / 16) = Num (1 / 16)"
proof -
  have r: "round_half_even ((1 / 16) / 2 powi (-4 - 52)) = 4503599627370496"
    by (rule rhe_near) simp_all
  show ?thesis
    using round64_eval [of "1 / 16" "- 4" 4503599627370496, OF _ _ _ _ r] by simp
qed

lemma ev_1_32: "round64 (1 / 32) = Num (1 / 32)"
proof -
  have r: "round_half_even ((1 / 32) / 2 powi (-5 - 52)) = 4503599627370496"
    by (rule rhe_near) simp_all
  show ?thesis
    using round64_eval [of "1 / 32" "- 5" 4503599627370496, OF _ _ _ _ r] by simp
qed

lemma synthetic_face_length: "454 < length synthetic_face"
  by (simp add: synthetic_face_def length_landmarks_of)




lemma ev_lit_70_4: "round64 (352 / 5) = Num (2476979795053773 / 35184372088832)"
proof -
  have r: "round_half_even ((352 / 5) / 2 powi (6 - 52)) = 4953959590107546"
    by (rule rhe_near) simp_all
  show ?thesis
    using round64_eval [of "352 / 5" 6 4953959590107546, OF _ _ _ _ r] by simp
qed

lemma ev_s70_1: "round64 (2476979795053773 / 35184372088832) = Num (2476979795053773 / 35184372088832)"
proof -
  have r: "round_half_even ((2476979795053773 / 35184372088832) / 2 powi (6 - 52)) = 4953959590107546"
    by (rule rhe_near) simp_all
  show ?thesis
    using round64_eval [of "2476979795053773 / 35184372088832" 6 4953959590107546, OF _ _ _ _ r] by simp
qed

lemma ev_s70_2: "round64 (2476979795053773 / 17592186044416) = Num (2476979795053773 / 17592186044416)"
proof -
  have r: "round_half_even ((2476979795053773 / 17592186044416) / 2 powi (7 - 52)) = 4953959590107546"
    by (rule rhe_near) simp_all
  show ?thesis
    using round64_eval [of "2476979795053773 / 17592186044416" 7 4953959590107546, OF _ _ _ _ r] by simp
qed

lemma ev_s70_3: "round64 (7430939385161319 / 35184372088832) = Num (7430939385161319 / 35184372088832)"
proof -
  have r: "round_half_even ((7430939385161319 / 35184372088832) / 2 powi (7 - 52)) = 7430939385161319"
    by (rule rhe_near) simp_all
  show ?thesis
    using round64_eval [of "7430939385161319 / 35184372088832" 7 7430939385161319, OF _ _ _ _ r] by simp
qed

lemma ev_s70_4: "round64 (2476979795053773 / 8796093022208) = Num (2476979795053773 / 8796093022208)"
proof -
  have r: "round_half_even ((2476979795053773 / 8796093022208) / 2 powi (8 - 52)) = 4953959590107546"
    by (rule rhe_near) simp_all
  show ?thesis
    using round64_eval [of "2476979795053773 / 8796093022208" 8 4953959590107546, OF _ _ _ _ r] by simp
qed

lemma ev_s70_5: "round64 (12384898975268865 / 35184372088832) = Num (352)"
proof -
  have r: "round_half_even ((12384898975268865 / 35184372088832) / 2 powi (8 - 52)) = 6192449487634432"
    by (rule rhe_tie_down) simp_all
  show ?thesis
    using round64_eval [of "12384898975268865 / 35184372088832" 8 6192449487634432, OF _ _ _ _ r] by simp
qed

lemma ev_s70_6: "round64 (14861878770322637 / 35184372088832) = Num (3715469692580659 / 8796093022208)"
proof -
  have r: "round_half_even ((14861878770322637 / 35184372088832) / 2 powi (8 - 52)) = 7430939385161318"
    by (rule rhe_tie_down) simp_all
  show ?thesis
    using round64_eval [of "14861878770322637 / 35184372088832" 8 7430939385161318, OF _ _ _ _ r] by simp
qed

lemma ev_m70: "round64 (3715469692580659 / 52776558133248) = Num (4953959590107545 / 70368744177664)"
proof -
  have r: "round_half_even ((3715469692580659 / 52776558133248) / 2 powi (6 - 52)) = 4953959590107545"
    by (rule rhe_near) simp_all
  show ?thesis
    using round64_eval [of "3715469692580659 / 52776558133248" 6 4953959590107545, OF _ _ _ _ r] by simp
qed

lemma plus_div_one: "(a + b) / Num 1 = a + (b :: jsnum)"
proof (cases a; cases b)
  fix x y assume ab: "a = Num x" "b = Num y"
  show ?thesis
  proof (cases "round64 (x + y)")
    case (Num r)
    then have "round64 r = Num r" by (rule round64_idem)
    with Num show ?thesis by (simp add: ab)
  qed (simp_all add: ab)
qed simp_all

lemma NaN_absorbs: "a * NaN = NaN" "a + NaN = NaN" "NaN + a = NaN" "NaN * a = NaN"
  by (cases a; simp)+



lemma exact_small: "is_double (1 / 4)" "is_double (1 / 8)" "is_double (1 / 16)" "is_double (1 / 32)"
  by (simp_all add: is_double_def ev_1_4 ev_1_8 ev_1_16 ev_1_32)

subsection \<open>Underflow of the exponential\<close>









lemma real_dist_axis:
  "real_dist \<lparr>px = a, py = 0\<rparr> \<lparr>px = b, py = 0\<rparr> = \<bar>a - b\<bar>"
  "real_dist \<lparr>px = 0, py = a\<rparr> \<lparr>px = 0, py = b\<rparr> = \<bar>a - b\<bar>"
  by (simp_all add: real_dist_def)

lemma eyeW_corner:
  assumes "hypot_axis M"
  shows "eyeW_js M lm = avgEyeWidth lm"
  by (simp add: eyeW_js_def avgEyeWidth_def cornerWidth_def pt_def dist_horizontal [OF assms])

lemma bulging_face_length: "454 < length bulging_face"
  by (simp add: bulging_face_def length_landmarks_of)

lemma narrow_face_length: "454 < length narrow_face"
  by (simp add: narrow_face_def length_landmarks_of)

lemma collapsed_face_facts:
  "454 < length collapsed_face" "bounded_landmarks collapsed_face"
  "faceWidth_js correctly_rounded collapsed_face = Num 0"
  "eyeW_js correctly_rounded collapsed_face = Num 0"
  by (simp_all add: collapsed_face_def length_landmarks_of bounded_landmarks_def used_indices_def
      quantity_defs nth_landmarks_of round64_0)

lemma tiny_face_length: "454 < length tiny_face"
  by (simp add: tiny_face_def length_landmarks_of)

section \<open>Score bounds\<close>




section \<open>Zero-sum weights\<close>

text \<open>
  C2, as the code has it. \<open>weightedScore\<close> has no \<open>throw\<close> and guards its divisor with
  \<open>|| 1\<close>: with four zero weights it returns 0, with the empty configuration \<open>NaN\<close>. No
  InvalidInputError is raised.
\<close>

theorem weightedScore_zero_sum_returns:
  "weightedScore sample_metrics zero_weights = Num 0 \<and> weightedScore sample_metrics [] = NaN"
  by (simp add: weightedScore_def sample_metrics_def zero_weights_def Object_values_def
      property_def round64_0 round64_numeral)

text \<open>
  C2, amended. When the weight sum the code computes is zero, the divisor falls back to 1
  and the aggregate is the sum of the four products \<open>score_i * weight_i\<close>; no
  InvalidInputError is raised. The computed sum is zero whenever no weight is negative and
  the weights sum to zero; then, for four finite scores and a configuration that has the
  four weights, the aggregate is \<open>sum(score_i * weight_i)\<close>, which is 0. For the empty
  configuration the aggregate is \<open>NaN\<close>.
\<close>

theorem weightedScore_zero_sum:
  "(foldl (+) (Num 0) (Object_values w) = Num 0 \<longrightarrow>
      weightedScore m w
        = symmetryScore m * property w ''symmetry'' + goldenScore m * property w ''golden''
          + fifthsScore m * property w ''fifths'' + eyeGapScore m * property w ''eyeGap'')
   \<and> (list_all (\<lambda>kv. 0 \<le> snd kv) w \<and> sum_list (map snd w) = 0 \<longrightarrow>
        foldl (+) (Num 0) (Object_values w) = Num 0)
   \<and> (list_all (\<lambda>kv. 0 \<le> snd kv) w \<and> sum_list (map snd w) = 0
      \<and> map_of w ''symmetry'' = Some w1 \<and> map_of w ''golden'' = Some w2
      \<and> map_of w ''fifths'' = Some w3 \<and> map_of w ''eyeGap'' = Some w4 \<longrightarrow>
        weightedScore \<lparr>symmetryScore = Num s1, goldenScore = Num s2, fifthsScore = Num s3,
                        eyeGapScore = Num s4, raw = r\<rparr> w
          = Num (s1 * w1 + s2 * w2 + s3 * w3 + s4 * w4))
   \<and> weightedScore m [] = NaN"
proof (intro conjI impI)
  show "weightedScore m w
        = symmetryScore m * property w ''symmetry'' + goldenScore m * property w ''golden''
          + fifthsScore m * property w ''fifths'' + eyeGapScore m * property w ''eyeGap''"
    if "foldl (+) (Num 0) (Object_values w) = Num 0"
    using that by (simp add: weightedScore_def plus_div_one)
  have zero: "\<forall>x\<in>set (map snd w). x = 0"
    if "list_all (\<lambda>kv. 0 \<le> snd kv) w \<and> sum_list (map snd w) = 0"
  proof -
    from that have "\<forall>x\<in>set (map snd w). 0 \<le> x" by (auto simp add: list_all_iff)
    with that sum_list_nonneg_eq_0_iff [of "map snd w"] show ?thesis by blast
  qed
  show W: "foldl (+) (Num 0) (Object_values w) = Num 0"
    if "list_all (\<lambda>kv. 0 \<le> snd kv) w \<and> sum_list (map snd w) = 0"
    using foldl_zeros [OF zero [OF that]] by (simp add: Object_values_def comp_def)
  show "weightedScore \<lparr>symmetryScore = Num s1, goldenScore = Num s2, fifthsScore = Num s3,
                        eyeGapScore = Num s4, raw = r\<rparr> w
          = Num (s1 * w1 + s2 * w2 + s3 * w3 + s4 * w4)"
    if h: "list_all (\<lambda>kv. 0 \<le> snd kv) w \<and> sum_list (map snd w) = 0
      \<and> map_of w ''symmetry'' = Some w1 \<and> map_of w ''golden'' = Some w2
      \<and> map_of w ''fifths'' = Some w3 \<and> map_of w ''eyeGap'' = Some w4"
  proof -
    from h have nz: "list_all (\<lambda>kv. 0 \<le> snd kv) w \<and> sum_list (map snd w) = 0" by simp
    have "v = 0" if "map_of w k = Some v" for k v
      using map_of_SomeD [OF that] zero [OF nz] by force
    with h have z: "w1 = 0" "w2 = 0" "w3 = 0" "w4 = 0" by blast+
    from h show ?thesis
      by (simp add: weightedScore_def property_def W [OF nz] z round64_0)
  qed
  show "weightedScore m [] = NaN"
    by (simp add: weightedScore_def Object_values_def property_def NaN_absorbs)
qed

text \<open>C2, an instance: the four zero weights.\<close>

theorem weightedScore_zero_sum_witness:
  "foldl (+) (Num 0) (Object_values zero_weights) = Num 0
   \<and> list_all (\<lambda>kv. 0 \<le> snd kv) zero_weights \<and> sum_list (map snd zero_weights) = 0
   \<and> weightedScore sample_metrics zero_weights
       = symmetryScore sample_metrics * property zero_weights ''symmetry''
         + goldenScore sample_metrics * property zero_weights ''golden''
         + fifthsScore sample_metrics * property zero_weights ''fifths''
         + eyeGapScore sample_metrics * property zero_weights ''eyeGap''
   \<and> weightedScore sample_metrics zero_weights = Num (80 * 0 + 60 * 0 + 40 * 0 + 20 * 0)"
  using weightedScore_zero_sum [of zero_weights sample_metrics 0 0 0 0 80 60 40 20 "raw sample_metrics"]
  by (simp add: zero_weights_def sample_metrics_def Object_values_def property_def round64_0
      round64_numeral)

section \<open>The centroid\<close>

text \<open>
  C3, as the code has it. \<open>meanPoint\<close> has no check of its argument and the engine has no
  \<open>throw\<close>: on the empty sequence both coordinates are \<open>0 / 0\<close>, which is \<open>NaN\<close>. On finite
  points the sum is taken from left to right in binary64: two points at \<open>x = 2^1023\<close> give
  \<open>Infinity\<close>, and six points at \<open>x = 70.4\<close> give 70.39999999999999, where the arithmetic
  mean of the six numbers, rounded, is 70.4.
\<close>

theorem meanPoint_not_arithmetic_mean:
  "meanPoint [] = (NaN, NaN)
   \<and> meanPoint [(Num (2 ^ 1023), Num 0), (Num (2 ^ 1023), Num 0)] = (PosInf, Num 0)
   \<and> lit 70.4 = Num seventy
   \<and> meanPoint (replicate 6 (Num seventy, Num 0)) = (Num (4953959590107545 / 2 ^ 46), Num 0)
   \<and> round64 (sum_list (replicate 6 seventy) / 6) = Num seventy"
proof (intro conjI)
  show "meanPoint [] = (NaN, NaN)"
    by (simp add: meanPoint_def)
  have "round64 (2 ^ 1023) = Num (2 ^ 1023)"
    using round64_dyadic [of 1 1023] by simp
  moreover have "round64 (2 ^ 1024) = PosInf"
    by (rule round64_overflow) simp
  ultimately show "meanPoint [(Num (2 ^ 1023), Num 0), (Num (2 ^ 1023), Num 0)] = (PosInf, Num 0)"
    by (simp add: meanPoint_def round64_0)
  show "lit 70.4 = Num seventy"
    by (simp add: lit_def seventy_def ev_lit_70_4)
  show "meanPoint (replicate 6 (Num seventy, Num 0)) = (Num (4953959590107545 / 2 ^ 46), Num 0)"
    by (simp add: meanPoint_def seventy_def eval_nat_numeral round64_0 round64_numeral
        ev_s70_1 ev_s70_2 ev_s70_3 ev_s70_4 ev_s70_5 ev_s70_6 ev_m70)
  show "round64 (sum_list (replicate 6 seventy) / 6) = Num seventy"
    by (simp add: seventy_def eval_nat_numeral ev_s70_1)
qed

text \<open>
  C3, amended. The centroid operation (\<open>meanPoint\<close>) applied to the empty sequence
  returns the point \<open>(NaN, NaN)\<close> without raising an error. Applied to a non-empty sequence
  of finite points whose running sums of the coordinates are binary64 numbers, it returns
  the arithmetic mean of the points, each coordinate rounded once to binary64.
\<close>

theorem meanPoint_arithmetic_mean:
  "meanPoint [] = (NaN, NaN)
   \<and> (rs \<noteq> [] \<and> sums_exact 0 (map fst rs) \<and> sums_exact 0 (map snd rs) \<longrightarrow>
        meanPoint (map finite_pt rs)
          = (round64 (sum_list (map fst rs) / real (length rs)),
             round64 (sum_list (map snd rs) / real (length rs))))"
  using meanPoint_exact by (simp add: meanPoint_def)

text \<open>C3, an instance: three points with integer coordinates.\<close>

theorem meanPoint_arithmetic_mean_witness:
  "[(0, 0), (2, 4), (4, 2 :: real)] \<noteq> []
   \<and> sums_exact 0 (map fst [(0, 0), (2, 4), (4, 2 :: real)])
   \<and> sums_exact 0 (map snd [(0, 0), (2, 4), (4, 2 :: real)])
   \<and> meanPoint [(Num 0, Num 0), (Num 2, Num 4), (Num 4, Num 2)] = (Num 2, Num 2)"
  using meanPoint_arithmetic_mean [of "[(0, 0), (2, 4), (4, 2)]"]
  by (simp add: finite_pt_def is_double_numeral round64_numeral)

section \<open>The error-to-score transform, stated\<close>

text \<open>
  C4, as the code has it. For the strictly positive tolerance \<open>2^-600\<close> the product
  \<open>2 * tolerance * tolerance\<close> underflows to 0, and the score of the error 0 is
  \<open>exp(-0 / 0)\<close>, which is \<open>NaN\<close> and not 100. For the error and the tolerance \<open>2^700\<close> both
  squares overflow, and the score is \<open>NaN\<close> as well. Both hold for every \<open>Math.exp\<close>.
\<close>

theorem tolerance_NaN:
  "\<forall>M. scoreFromError M (Num 0) (Num (2 powi (- 600))) = NaN
     \<and> scoreFromError M (Num (2 ^ 700)) (Num (2 ^ 700)) = NaN"
proof (intro allI conjI)
  fix M
  have a: "round64 (2 * 2 powi (- 600)) = Num (2 powi (- 599))"
    using round64_dyadic [of 1 "- 599"] power_int_add [of "2::real" 1 "- 600"] by simp
  have "\<bar>2 powi (- 599) * 2 powi (- 600)\<bar> < (2::real) powi (- 1075)"
  proof -
    have "(2::real) powi (- 599) * 2 powi (- 600) = 2 powi (- 1199)"
      using power_int_add [of "2::real" "- 599" "- 600"] by simp
    moreover have "(2::real) powi (- 1199) < 2 powi (- 1075)"
      by (rule power_int_strict_increasing) simp_all
    ultimately show ?thesis by (simp add: zero_less_power_int)
  qed
  then have b: "round64 (2 powi (- 599) * 2 powi (- 600)) = Num 0"
    by (rule round64_underflow)
  have "Num 2 * Num (2 powi (- 600)) * Num (2 powi (- 600)) = Num 0"
    by (simp only: times_jsnum.simps a b)
  then show "scoreFromError M (Num 0) (Num (2 powi (- 600))) = NaN"
    by (simp add: scoreFromError_def clamp_def round64_0)
  have c: "round64 (2 * 2 ^ 700) = Num (2 ^ 701)"
    using round64_dyadic [of 1 701] by simp
  have d: "round64 (2 ^ 701 * 2 ^ 700) = PosInf" "round64 (2 ^ 700 * 2 ^ 700) = PosInf"
    by (rule round64_overflow, simp)+
  have "Num 2 * Num (2 ^ 700) * Num (2 ^ 700) = PosInf" "Num (2 ^ 700) * Num (2 ^ 700) = PosInf"
    by (simp_all only: times_jsnum.simps c d)
  then show "scoreFromError M (Num (2 ^ 700)) (Num (2 ^ 700)) = NaN"
    by (simp add: scoreFromError_def clamp_def)
qed

text \<open>
  C4, amended. For every tolerance \<open>t > 0\<close> whose doubled square \<open>2 * t * t\<close>, as the code
  computes it, is a positive finite number \<open>d\<close>, and every \<open>Math.exp\<close> that is not negative
  and monotone: \<open>scoreFromError(0, t)\<close> equals 100; for every finite error the score is a
  finite number in [0,100], namely \<open>100 * exp(-(e * e) / d)\<close> clamped to [0,100], each
  operation rounded; and the score is monotonically non-increasing in \<open>|error|\<close>.
\<close>

theorem scoreFromError_gaussian:
  assumes "0 < t" and "Num 2 * Num t * Num t = Num d" and "0 < d" and "exp_ok M"
  shows "scoreFromError M (Num 0) (Num t) = Num 100
    \<and> in_range (scoreFromError M (Num e) (Num t)) 0 100
    \<and> scoreFromError M (Num e) (Num t)
        = Math_max (Num 0) (Math_min (Num 100) (Num 100 * Math_exp M (- (Num e * Num e) / Num d)))
    \<and> (\<bar>e1\<bar> \<le> \<bar>e2\<bar> \<longrightarrow>
         js_le (scoreFromError M (Num e2) (Num t)) (scoreFromError M (Num e1) (Num t)))"
proof (intro conjI impI)
  show "scoreFromError M (Num 0) (Num t) = Num 100"
    by (rule score_zero [OF assms(2)]) (use assms(3) in simp)
  show "in_range (scoreFromError M (Num e) (Num t)) 0 100"
    using assms(2,3,4) by (intro score_in_range) (auto simp add: tol_ok_def)
  show "scoreFromError M (Num e) (Num t)
        = Math_max (Num 0) (Math_min (Num 100) (Num 100 * Math_exp M (- (Num e * Num e) / Num d)))"
    by (simp only: scoreFromError_def clamp_def assms(2))
  assume "\<bar>e1\<bar> \<le> \<bar>e2\<bar>"
  with assms(4,2,3) show "js_le (scoreFromError M (Num e2) (Num t)) (scoreFromError M (Num e1) (Num t))"
    by (rule score_mono)
qed

text \<open>
  C4, an instance: the tolerance 1/8, whose doubled square is 1/32, with the errors 1/16
  and -1/8.
\<close>

theorem scoreFromError_gaussian_witness:
  "0 < (1 / 8 :: real) \<and> Num 2 * Num (1 / 8) * Num (1 / 8) = Num (1 / 32) \<and> 0 < (1 / 32 :: real)
   \<and> exp_ok correctly_rounded \<and> \<bar>1 / 16 :: real\<bar> \<le> \<bar>- (1 / 8)\<bar>
   \<and> scoreFromError correctly_rounded (Num 0) (Num (1 / 8)) = Num 100
   \<and> in_range (scoreFromError correctly_rounded (Num (1 / 16)) (Num (1 / 8))) 0 100
   \<and> js_le (scoreFromError correctly_rounded (Num (- (1 / 8))) (Num (1 / 8)))
        (scoreFromError correctly_rounded (Num (1 / 16)) (Num (1 / 8)))"
proof -
  have d: "Num 2 * Num (1 / 8) * Num (1 / 8) = Num (1 / 32)"
    by (simp add: ev_1_4 ev_1_32)
  have p: "0 < (1 / 8 :: real)" "0 < (1 / 32 :: real)" "\<bar>1 / 16 :: real\<bar> \<le> \<bar>- (1 / 8)\<bar>"
    by simp_all
  from scoreFromError_gaussian [where t = "1 / 8" and d = "1 / 32" and M = correctly_rounded
      and e = "1 / 16" and ?e1.0 = "1 / 16" and ?e2.0 = "- (1 / 8)",
      OF p(1) d p(2) exp_ok_correctly_rounded] p d exp_ok_correctly_rounded
  show ?thesis by blast
qed

section \<open>The aggregate, stated\<close>




section \<open>Symmetry\<close>




section \<open>Proportion\<close>




section \<open>Rule of fifths\<close>

text \<open>
  C8, as the code has it. \<open>computeMetrics\<close> measures an eye from its two corner landmarks
  only; the contour points feed the eye centroid alone. In \<open>bulging_face\<close> a contour point
  lies 10 left of the outer corner: the ratio of the face width to the average contour
  extent is \<open>100 / 25 = 4\<close>, the raw value of the code is \<open>100 / 20 = 5\<close>. In \<open>narrow_face\<close>
  the face width is 0: the raw value of the code is \<open>1e-6 / 20\<close> (5e-8), not 0.
\<close>

theorem fifths_not_contour_extent:
  "contour_fifths bulging_face = 4
   \<and> (\<exists>m. computeMetrics correctly_rounded bulging_face = Inr m \<and> fifths (raw m) = Num 5)
   \<and> real_dist (narrow_face ! LM_faceLeft) (narrow_face ! LM_faceRight) = 0
   \<and> (\<exists>m. computeMetrics correctly_rounded narrow_face = Inr m
        \<and> fifths (raw m) = Num (944473296573929 / 18889465931478580854784))"
proof (intro conjI)
  show "contour_fifths bulging_face = 4"
    by (simp add: contour_fifths_def extent_def LM_defs bulging_face_def nth_landmarks_of
        real_dist_axis)
  have "faceWidth_js correctly_rounded bulging_face = Num 100"
    "eyeW_js correctly_rounded bulging_face = Num 20"
    by (simp_all add: quantity_defs bulging_face_def nth_landmarks_of round64_numeral round64_0
        hypot_correctly_rounded_axis)
  then show "\<exists>m. computeMetrics correctly_rounded bulging_face = Inr m \<and> fifths (raw m) = Num 5"
    by (simp add: computeMetrics_eq [OF bulging_face_length] fifths_js_def round64_numeral)
  show "real_dist (narrow_face ! LM_faceLeft) (narrow_face ! LM_faceRight) = 0"
    by (simp add: LM_defs narrow_face_def nth_landmarks_of real_dist_axis)
  have "faceWidth_js correctly_rounded narrow_face = Num 0"
    "eyeW_js correctly_rounded narrow_face = Num 20"
    by (simp_all add: quantity_defs narrow_face_def nth_landmarks_of round64_numeral round64_0
        hypot_correctly_rounded_axis)
  then show "\<exists>m. computeMetrics correctly_rounded narrow_face = Inr m
        \<and> fifths (raw m) = Num (944473296573929 / 18889465931478580854784)"
    by (simp add: computeMetrics_eq [OF narrow_face_length] fifths_js_def epsilon_def lit_def
        ev_eps ev_eps20)
qed

text \<open>
  C8, amended. For every landmark set that has every index of the table, the raw
  measurement of the rule-of-fifths metric is \<open>(faceWidth || 1e-6) / (eyeW || 1e-6)\<close> in
  binary64 (an infinity when the quotient overflows), where \<open>eyeW\<close> is the average of the
  two corner distances \<open>dist([outer.x, inner.y], inner)\<close> and
  \<open>dist([inner.x, outer.y], outer)\<close>; when \<open>Math.hypot\<close> is exact on an axis, this is the
  average of the horizontal corner distances \<open>|outer.x - inner.x|\<close>. The score is
  \<open>scoreFromError\<close> applied to the relative deviation of the raw value from 5 with
  tolerance 0.18.
\<close>

theorem fifths_metric:
  assumes "454 < length lm"
  shows "\<exists>m. computeMetrics M lm = Inr m
    \<and> fifths (raw m) = js_or (faceWidth_js M lm) epsilon / js_or (eyeW_js M lm) epsilon
    \<and> fifthsScore m = scoreFromError M (\<bar>fifths (raw m) - Num 5\<bar> / Num 5) (lit 0.18)
    \<and> (hypot_axis M \<longrightarrow> eyeW_js M lm = avgEyeWidth lm)"
  using eyeW_corner [of M lm]
  by (simp add: computeMetrics_eq [OF assms] fifths_js_def)

text \<open>C8, an instance: the synthetic face, whose eyes are 20 wide.\<close>

theorem fifths_metric_witness:
  "454 < length synthetic_face \<and> hypot_axis correctly_rounded
   \<and> avgEyeWidth synthetic_face = Num 20
   \<and> (\<exists>m. computeMetrics correctly_rounded synthetic_face = Inr m
       \<and> fifths (raw m) = js_or (faceWidth_js correctly_rounded synthetic_face) epsilon
                            / js_or (eyeW_js correctly_rounded synthetic_face) epsilon
       \<and> fifthsScore m = scoreFromError correctly_rounded (\<bar>fifths (raw m) - Num 5\<bar> / Num 5) (lit 0.18)
       \<and> eyeW_js correctly_rounded synthetic_face = avgEyeWidth synthetic_face)"
proof -
  have "avgEyeWidth synthetic_face = Num 20"
    by (simp add: avgEyeWidth_def cornerWidth_def LM_defs minus_jsnum_def synthetic_face_def
        nth_landmarks_of round64_numeral)
  with fifths_metric [OF synthetic_face_length, of correctly_rounded]
    synthetic_face_length hypot_axis_correctly_rounded
  show ?thesis by blast
qed

section \<open>Degenerate denominators\<close>

text \<open>
  C9, as the code has it. The guard is \<open>d || 1e-6\<close>: it replaces a zero and nothing else.
  In \<open>blown_eyes_face\<close> all coordinates are finite and the face width is 0, but the eye
  width and the inner gap overflow to \<open>Infinity\<close>: the eye gap ratio is \<open>NaN\<close> and so is its
  score, for every \<open>Math.hypot\<close> and \<open>Math.exp\<close>. In \<open>tiny_face\<close> the face width \<open>2^-30\<close> is
  below \<open>1e-6\<close> and is used as it is: the raw proportion is \<open>1.4 * 2^30\<close>.
\<close>

theorem denominators_not_guarded:
  "(\<forall>M. faceWidth_js M blown_eyes_face = Num 0
        \<and> (\<exists>m. computeMetrics M blown_eyes_face = Inr m \<and> eyeGapScore m = NaN))
   \<and> faceWidth_js correctly_rounded tiny_face = Num (1 / 2 ^ 30)
   \<and> js_le (Num (1 / 2 ^ 30)) epsilon
   \<and> (\<exists>m. computeMetrics correctly_rounded tiny_face = Inr m
        \<and> lw (raw m) = Num (3152519739159347 / 2097152))"
proof (intro conjI allI)
  fix M
  show "faceWidth_js M blown_eyes_face = Num 0" by (rule blown_eyes(2))
  have len: "454 < length blown_eyes_face"
    by (simp add: blown_eyes_face_def length_landmarks_of)
  show "\<exists>m. computeMetrics M blown_eyes_face = Inr m \<and> eyeGapScore m = NaN"
    by (simp add: computeMetrics_eq [OF len] blown_eyes NaN_propagates score_NaN)
next
  show w: "faceWidth_js correctly_rounded tiny_face = Num (1 / 2 ^ 30)"
    by (simp add: quantity_defs tiny_face_def nth_landmarks_of round64_0 round64_uminus
        hypot_correctly_rounded_axis ev_t30)
  show "js_le (Num (1 / 2 ^ 30)) epsilon"
    by (simp add: epsilon_def lit_def ev_eps)
  have "faceLength_js correctly_rounded tiny_face = Num (3152519739159347 / 2251799813685248)"
    by (simp add: quantity_defs tiny_face_def nth_landmarks_of round64_0 round64_uminus
        round64_numeral hypot_correctly_rounded_axis lit_def ev_lit_1_4 round64_idem [OF ev_lit_1_4])
  then show "\<exists>m. computeMetrics correctly_rounded tiny_face = Inr m
        \<and> lw (raw m) = Num (3152519739159347 / 2097152)"
    using w by (simp add: computeMetrics_eq [OF tiny_face_length] lw_js_def ev_lw_tiny)
qed

text \<open>
  C9, amended. For every landmark set that has every index of the table, with coordinates
  of magnitude at most \<open>2^1000\<close> at the landmarks the engine reads, and every \<open>Math.hypot\<close>
  and \<open>Math.exp\<close> within the bounds \<open>hypot_ok\<close> and \<open>exp_ok\<close>, \<open>computeMetrics\<close> does not
  raise and every returned score is a finite number in [0,100], also when a denominator
  is zero: a face width of 0 is replaced by \<open>1e-6\<close> in the three ratios that use it, and an
  average eye width of 0 in the two ratios that use it. A denominator that is not zero
  is used as it is, however small.
\<close>

theorem zero_denominators_guarded:
  assumes "454 < length lm" and "bounded_landmarks lm" and "hypot_ok M" and "exp_ok M"
  shows "\<exists>m. computeMetrics M lm = Inr m
    \<and> in_range (symmetryScore m) 0 100 \<and> in_range (goldenScore m) 0 100
    \<and> in_range (fifthsScore m) 0 100 \<and> in_range (eyeGapScore m) 0 100
    \<and> (faceWidth_js M lm = Num 0 \<longrightarrow>
         symmetryNorm (raw m) = symmetryErr_js M lm / epsilon
         \<and> lw (raw m) = faceLength_js M lm / epsilon
         \<and> fifths (raw m) = epsilon / js_or (eyeW_js M lm) epsilon)
    \<and> (eyeW_js M lm = Num 0 \<longrightarrow>
         fifths (raw m) = js_or (faceWidth_js M lm) epsilon / epsilon
         \<and> eyeGapRatio (raw m) = innerGap_js M lm / epsilon)"
  using metrics_in_range [OF assms]
  by (auto simp add: computeMetrics_eq [OF assms(1)] symmetryNorm_js_def lw_js_def fifths_js_def
      eyeGapRatio_js_def)

text \<open>
  C9, an instance: with every landmark at the origin the face width and the eye width
  are both 0.
\<close>

theorem zero_denominators_guarded_witness:
  "454 < length collapsed_face \<and> bounded_landmarks collapsed_face
   \<and> hypot_ok correctly_rounded \<and> exp_ok correctly_rounded
   \<and> faceWidth_js correctly_rounded collapsed_face = Num 0
   \<and> eyeW_js correctly_rounded collapsed_face = Num 0
   \<and> (\<exists>m. computeMetrics correctly_rounded collapsed_face = Inr m
    \<and> in_range (symmetryScore m) 0 100 \<and> in_range (goldenScore m) 0 100
    \<and> in_range (fifthsScore m) 0 100 \<and> in_range (eyeGapScore m) 0 100
    \<and> symmetryNorm (raw m) = symmetryErr_js correctly_rounded collapsed_face / epsilon
    \<and> lw (raw m) = faceLength_js correctly_rounded collapsed_face / epsilon
    \<and> fifths (raw m) = epsilon / epsilon
    \<and> eyeGapRatio (raw m) = innerGap_js correctly_rounded collapsed_face / epsilon)"
  using zero_denominators_guarded [OF collapsed_face_facts(1,2) hypot_ok_correctly_rounded
      exp_ok_correctly_rounded]
    collapsed_face_facts hypot_ok_correctly_rounded exp_ok_correctly_rounded
  by auto

end
